theory Spec2Isabelle
  imports Complex_Main
begin

section \<open>Numbers\<close>

text \<open>
  The TypeScript type \<^verbatim>\<open>number\<close> is an IEEE-754 binary64 value. Two readings of the
  arithmetic are used.

  \<^item> For the pricing module (\<open>normalCDF\<close>, \<open>normalPDF\<close>, \<open>calculateOptionPremium\<close>,
    \<open>calculateGreeks\<close>), the time conversions and the volatility feed, a number is a
    \<^typ>\<open>real\<close> and every operation, \<^verbatim>\<open>Math.exp\<close>, \<^verbatim>\<open>Math.log\<close> and \<^verbatim>\<open>Math.sqrt\<close>
    is the exact mathematical one. Statements over these definitions are statements
    about the expressions the code evaluates.

  \<^item> Where rounding decides what the program does (how often the loop of the payoff
    generator runs, whether a bound on delta is attained), the same source lines are
    translated with the rounding function \<open>fl\<close> applied to the result of every
    operation: \<open>generateData\<close> and the definitions whose names end in \<open>_double\<close>.

  \<open>fl\<close> rounds a real to the nearest number with a 53-bit significand, ties to the
  even significand, as binary64 does. The exponent range is taken as unbounded:
  overflow to infinity, subnormal numbers and \<^verbatim>\<open>NaN\<close> are outside the embedding.
  \<^verbatim>\<open>Math.sqrt\<close>, \<^verbatim>\<open>Math.exp\<close> and \<^verbatim>\<open>Math.log\<close> are taken as correctly rounded.
\<close>

definition round_even :: "real \<Rightarrow> int" where
  "round_even y =
     (let f = \<lfloor>y\<rfloor>; d = y - of_int f
      in if d < 1 / 2 then f else if 1 / 2 < d then f + 1 else if even f then f else f + 1)"

definition fl :: "real \<Rightarrow> real" where
  "fl x =
     (if x = 0 then 0
      else let u = 2 powr (of_int \<lfloor>log 2 \<bar>x\<bar>\<rfloor> - 52)
           in of_int (round_even (x / u)) * u)"

section \<open>Normal distribution primitives (utils/blackScholes.ts)\<close>

definition normalCDF :: "real \<Rightarrow> real" where
  "normalCDF x0 =
     (let a1 = 0.254829592;
          a2 = - 0.284496736;
          a3 = 1.421413741;
          a4 = - 1.453152027;
          a5 = 1.061405429;
          p = 0.3275911;
          sign = (if x0 < 0 then - 1 else 1);
          x = \<bar>x0\<bar> / sqrt 2;
          t = 1 / (1 + p * x);
          erf = 1 - ((((a5 * t + a4) * t + a3) * t + a2) * t + a1) * t * exp (- x * x)
      in 0.5 * (1 + sign * erf))"

definition normalPDF :: "real \<Rightarrow> real" where
  "normalPDF x = exp (- 0.5 * x * x) / sqrt (2 * pi)"

section \<open>Premium and Greeks (utils/blackScholes.ts)\<close>

definition calculateOptionPremium :: "real \<Rightarrow> real \<Rightarrow> real \<Rightarrow> real \<Rightarrow> real \<Rightarrow> bool \<Rightarrow> real" where
  "calculateOptionPremium spotPrice strikePrice timeToExpiry volatility riskFreeRate isCall =
     (if spotPrice \<le> 0 \<or> strikePrice \<le> 0 \<or> timeToExpiry \<le> 0 \<or> volatility \<le> 0 then 0
      else
        let d1 = (ln (spotPrice / strikePrice)
                   + (riskFreeRate + 0.5 * volatility * volatility) * timeToExpiry)
                 / (volatility * sqrt timeToExpiry);
            d2 = d1 - volatility * sqrt timeToExpiry
        in if isCall
           then spotPrice * normalCDF d1
                - strikePrice * exp (- riskFreeRate * timeToExpiry) * normalCDF d2
           else strikePrice * exp (- riskFreeRate * timeToExpiry) * normalCDF (- d2)
                - spotPrice * normalCDF (- d1))"

record greeks =
  delta :: real
  gamma :: real
  theta :: real
  vega :: real
  rho :: real

definition calculateGreeks :: "real \<Rightarrow> real \<Rightarrow> real \<Rightarrow> real \<Rightarrow> real \<Rightarrow> bool \<Rightarrow> greeks" where
  "calculateGreeks spotPrice strikePrice timeToExpiry volatility riskFreeRate isCall =
     (if spotPrice \<le> 0 \<or> strikePrice \<le> 0 \<or> timeToExpiry \<le> 0 \<or> volatility \<le> 0
      then \<lparr>delta = 0, gamma = 0, theta = 0, vega = 0, rho = 0\<rparr>
      else
        let d1 = (ln (spotPrice / strikePrice)
                   + (riskFreeRate + 0.5 * volatility * volatility) * timeToExpiry)
                 / (volatility * sqrt timeToExpiry);
            d2 = d1 - volatility * sqrt timeToExpiry;
            delta' = (if isCall then normalCDF d1 else normalCDF d1 - 1);
            gamma' = normalPDF d1 / (spotPrice * volatility * sqrt timeToExpiry);
            vega' = spotPrice * normalPDF d1 * sqrt timeToExpiry * 0.01;
            term1 = - (spotPrice * volatility * normalPDF d1) / (2 * sqrt timeToExpiry);
            term2 = riskFreeRate * strikePrice * exp (- riskFreeRate * timeToExpiry);
            theta' = (if isCall then (term1 - term2 * normalCDF d2) / 365
                      else (term1 + term2 * normalCDF (- d2)) / 365);
            rho' = (if isCall
                    then strikePrice * timeToExpiry * exp (- riskFreeRate * timeToExpiry)
                         * normalCDF d2 * 0.01
                    else - strikePrice * timeToExpiry * exp (- riskFreeRate * timeToExpiry)
                         * normalCDF (- d2) * 0.01)
        in \<lparr>delta = delta', gamma = gamma', theta = theta', vega = vega', rho = rho'\<rparr>)"

section \<open>Normal distribution and Greeks, evaluated in binary64 (utils/blackScholes.ts)\<close>

text \<open>
  The same source lines as \<open>normalCDF\<close>, \<open>normalPDF\<close> and \<open>calculateGreeks\<close>, with the
  result of every operation rounded. A decimal literal that is not a binary64 number
  stands for its rounding (\<open>fl 0.254829592\<close>); negation, \<^verbatim>\<open>Math.abs\<close> and the
  comparisons are exact. Operators associate to the left, as in the source:
  \<^verbatim>\<open>-0.5 * x * x\<close> is \<open>fl (fl (- 0.5 * x) * x)\<close>.
\<close>

definition normalCDF_double :: "real \<Rightarrow> real" where
  "normalCDF_double x0 =
     (let a1 = fl 0.254829592;
          a2 = - fl 0.284496736;
          a3 = fl 1.421413741;
          a4 = - fl 1.453152027;
          a5 = fl 1.061405429;
          p = fl 0.3275911;
          sign = (if x0 < 0 then - 1 else 1);
          x = fl (\<bar>x0\<bar> / fl (sqrt 2));
          t = fl (1 / fl (1 + fl (p * x)));
          erf = fl (1 - fl (fl (fl (fl (fl (fl (fl (fl (fl (fl (a5 * t) + a4) * t) + a3) * t)
                                          + a2) * t) + a1) * t)
                            * fl (exp (fl (- x * x)))))
      in fl (0.5 * fl (1 + fl (sign * erf))))"

definition normalPDF_double :: "real \<Rightarrow> real" where
  "normalPDF_double x = fl (fl (exp (fl (fl (- 0.5 * x) * x))) / fl (sqrt (fl (2 * fl pi))))"

definition calculateGreeks_double ::
  "real \<Rightarrow> real \<Rightarrow> real \<Rightarrow> real \<Rightarrow> real \<Rightarrow> bool \<Rightarrow> greeks" where
  "calculateGreeks_double spotPrice strikePrice timeToExpiry volatility riskFreeRate isCall =
     (if spotPrice \<le> 0 \<or> strikePrice \<le> 0 \<or> timeToExpiry \<le> 0 \<or> volatility \<le> 0
      then \<lparr>delta = 0, gamma = 0, theta = 0, vega = 0, rho = 0\<rparr>
      else
        let d1 = fl (fl (fl (ln (fl (spotPrice / strikePrice)))
                         + fl (fl (riskFreeRate + fl (fl (0.5 * volatility) * volatility))
                               * timeToExpiry))
                     / fl (volatility * fl (sqrt timeToExpiry)));
            d2 = fl (d1 - fl (volatility * fl (sqrt timeToExpiry)));
            delta' = (if isCall then normalCDF_double d1 else fl (normalCDF_double d1 - 1));
            gamma' = fl (normalPDF_double d1
                         / fl (fl (spotPrice * volatility) * fl (sqrt timeToExpiry)));
            vega' = fl (fl (fl (spotPrice * normalPDF_double d1) * fl (sqrt timeToExpiry))
                        * fl 0.01);
            term1 = fl (- fl (fl (spotPrice * volatility) * normalPDF_double d1)
                        / fl (2 * fl (sqrt timeToExpiry)));
            term2 = fl (fl (riskFreeRate * strikePrice)
                        * fl (exp (fl (- riskFreeRate * timeToExpiry))));
            theta' = (if isCall then fl (fl (term1 - fl (term2 * normalCDF_double d2)) / 365)
                      else fl (fl (term1 + fl (term2 * normalCDF_double (- d2))) / 365));
            rho' = (if isCall
                    then fl (fl (fl (fl (strikePrice * timeToExpiry)
                                     * fl (exp (fl (- riskFreeRate * timeToExpiry))))
                                 * normalCDF_double d2) * fl 0.01)
                    else fl (fl (fl (fl (- strikePrice * timeToExpiry)
                                     * fl (exp (fl (- riskFreeRate * timeToExpiry))))
                                 * normalCDF_double (- d2)) * fl 0.01))
        in \<lparr>delta = delta', gamma = gamma', theta = theta', vega = vega', rho = rho'\<rparr>)"

section \<open>Time normalization (utils/blackScholes.ts)\<close>

text \<open>
  \<^verbatim>\<open>dateToTimeToExpiry\<close> reads the clock (\<^verbatim>\<open>new Date()\<close>); the reading is the
  parameter \<open>now\<close>. Both instants are what \<^verbatim>\<open>getTime()\<close> returns: whole
  milliseconds since the epoch.
\<close>

definition dateToTimeToExpiry :: "int \<Rightarrow> int \<Rightarrow> real" where
  "dateToTimeToExpiry now expiryDate =
     (let diffMs = real_of_int (expiryDate - now);
          diffDays = diffMs / (1000 * 60 * 60 * 24)
      in diffDays / 365)"

definition durationToTimeToExpiry :: "real \<Rightarrow> real \<Rightarrow> real \<Rightarrow> real" where
  "durationToTimeToExpiry hours minutes seconds =
     (let totalSeconds = hours * 3600 + minutes * 60 + seconds;
          totalDays = totalSeconds / (24 * 3600)
      in totalDays / 365)"

section \<open>Payoff curve generator (components/PayoffGraph.tsx)\<close>

text \<open>
  \<^verbatim>\<open>x.toFixed(2)\<close> works on the magnitude of \<open>x\<close>, takes the integer \<open>n\<close> with
  \<open>n / 100\<close> nearest to it, the larger one on a tie, and puts the sign back; from
  \<open>10\<^sup>2\<^sup>1\<close> on it prints the number itself. \<open>toFixed2\<close> is the value of the decimal
  string it prints.
\<close>

definition toFixed2 :: "real \<Rightarrow> real" where
  "toFixed2 x =
     (if x < 0
      then (if 10^21 \<le> - x then x else - (of_int \<lfloor>- x * 100 + 1 / 2\<rfloor> / 100))
      else (if 10^21 \<le> x then x else of_int \<lfloor>x * 100 + 1 / 2\<rfloor> / 100))"

text \<open>
  The prop \<^verbatim>\<open>optionType: 'call' | 'put'\<close>, the pushed object
  \<^verbatim>\<open>{price, buyerPayoff, sellerPayoff}\<close>, and the body of the \<^verbatim>\<open>for\<close> loop, in
  binary64: \<open>payoffs\<close> are the two values before \<^verbatim>\<open>toFixed\<close>, \<open>data_point\<close> is the
  object pushed, each field \<^verbatim>\<open>Number(v.toFixed(2))\<close>, the binary64 number nearest to the
  printed decimal.
\<close>

datatype option_type = Call | Put

record payoff_point =
  price :: real
  buyerPayoff :: real
  sellerPayoff :: real

definition payoffs :: "option_type \<Rightarrow> real \<Rightarrow> real \<Rightarrow> real \<Rightarrow> real \<times> real" where
  "payoffs optionType strikePrice premium p =
     (case optionType of
        Call \<Rightarrow> (fl (max 0 (fl (p - strikePrice)) - premium),
                 fl (premium - max 0 (fl (p - strikePrice))))
      | Put \<Rightarrow> (fl (max 0 (fl (strikePrice - p)) - premium),
                fl (premium - max 0 (fl (strikePrice - p)))))"

definition data_point :: "option_type \<Rightarrow> real \<Rightarrow> real \<Rightarrow> real \<Rightarrow> payoff_point" where
  "data_point optionType strikePrice premium p =
     (case payoffs optionType strikePrice premium p of
        (buyer, seller) \<Rightarrow>
          \<lparr>price = fl (toFixed2 p), buyerPayoff = fl (toFixed2 buyer),
           sellerPayoff = fl (toFixed2 seller)\<rparr>)"

text \<open>
  The loop \<^verbatim>\<open>for (let price = minPrice; price <= maxPrice; price += step)\<close>, with
  the loop variable \<open>p\<close> and the array \<open>data\<close> built so far; \<^verbatim>\<open>price += step\<close> is
  the rounded sum. Nothing in the source bounds the number of iterations, so the loop is
  a partial function: \<open>None\<close> is a loop that never ends.
\<close>

partial_function (option) generateLoop ::
  "option_type \<Rightarrow> real \<Rightarrow> real \<Rightarrow> real \<Rightarrow> real \<Rightarrow> real \<Rightarrow> payoff_point list
   \<Rightarrow> payoff_point list option" where
  "generateLoop optionType strikePrice premium maxPrice step p data =
     (if p \<le> maxPrice
      then generateLoop optionType strikePrice premium maxPrice step (fl (p + step))
             (data @ [data_point optionType strikePrice premium p])
      else Some data)"

definition generateData :: "real \<Rightarrow> real \<Rightarrow> real \<Rightarrow> option_type \<Rightarrow> payoff_point list option" where
  "generateData spotPrice strikePrice premium optionType =
     (let minPrice = max 0 (fl (strikePrice - fl (spotPrice * 0.75)));
          maxPrice = fl (strikePrice + fl (spotPrice * 0.75));
          step = fl (fl (maxPrice - minPrice) / 100)
      in generateLoop optionType strikePrice premium maxPrice step minPrice [])"

section \<open>Volatility feed client (components/OptionCalculator.tsx, fetchDVOLData)\<close>

text \<open>
  A parsed JSON document (\<open>JObj\<close> lists the properties of an object, each key once),
  and what a property read on it yields. \<open>get_named\<close> reads
  a property that no built-in prototype defines (\<^verbatim>\<open>result\<close>, \<^verbatim>\<open>error\<close>,
  \<^verbatim>\<open>message\<close>); \<open>get_index1\<close> is the read \<^verbatim>\<open>[1]\<close>. Reading a property of
  \<^verbatim>\<open>null\<close> or \<^verbatim>\<open>undefined\<close> throws a \<^verbatim>\<open>TypeError\<close>, and so does calling
  \<^verbatim>\<open>toFixed\<close> on anything that is not a number.
\<close>

datatype json = JNull | JBool bool | JNum real | JStr string | JArr "json list"
  | JObj "(string \<times> json) list"

datatype js_value = Undefined | Val json

fun truthy :: "js_value \<Rightarrow> bool" where
  "truthy Undefined = False"
| "truthy (Val JNull) = False"
| "truthy (Val (JBool b)) = b"
| "truthy (Val (JNum x)) = (x \<noteq> 0)"
| "truthy (Val (JStr s)) = (s \<noteq> [])"
| "truthy (Val (JArr xs)) = True"
| "truthy (Val (JObj kvs)) = True"

datatype fetch_error = SyntaxError | TypeError | ServerError js_value | InvalidResponseFormat
  | TransportError | WebSocketTimeout

fun get_named :: "json \<Rightarrow> string \<Rightarrow> fetch_error + js_value" where
  "get_named JNull k = Inl TypeError"
| "get_named (JObj kvs) k = Inr (case map_of kvs k of None \<Rightarrow> Undefined | Some v \<Rightarrow> Val v)"
| "get_named j k = Inr Undefined"

fun get_index1 :: "json \<Rightarrow> fetch_error + js_value" where
  "get_index1 JNull = Inl TypeError"
| "get_index1 (JArr ys) = Inr (if 1 < length ys then Val (ys ! 1) else Undefined)"
| "get_index1 (JStr s) = Inr (if 1 < length s then Val (JStr [s ! 1]) else Undefined)"
| "get_index1 (JObj kvs) = Inr (case map_of kvs ''1'' of None \<Rightarrow> Undefined | Some v \<Rightarrow> Val v)"
| "get_index1 j = Inr Undefined"

fun call_toFixed2 :: "js_value \<Rightarrow> fetch_error + real" where
  "call_toFixed2 (Val (JNum x)) = Inr (toFixed2 x)"
| "call_toFixed2 v = Inl TypeError"

text \<open>
  The promise returned by \<^verbatim>\<open>fetchDVOLData\<close> (settled at most once), the socket's
  \<^verbatim>\<open>readyState\<close> and the requests sent so far.
\<close>

record dvol_response =
  volatility :: real
  timestamp :: int

datatype promise_state = Pending | Fulfilled dvol_response | Rejected fetch_error

datatype ready_state = CONNECTING | OPEN | CLOSING | CLOSED

record request =
  rpc_method :: string
  currency :: string

record socket_client =
  readyState :: ready_state
  promise :: promise_state
  sent :: "request list"

definition resolve :: "dvol_response \<Rightarrow> socket_client \<Rightarrow> socket_client" where
  "resolve r c = (case promise c of Pending \<Rightarrow> c\<lparr>promise := Fulfilled r\<rparr> | _ \<Rightarrow> c)"

definition reject :: "fetch_error \<Rightarrow> socket_client \<Rightarrow> socket_client" where
  "reject e c = (case promise c of Pending \<Rightarrow> c\<lparr>promise := Rejected e\<rparr> | _ \<Rightarrow> c)"

definition ws_close :: "socket_client \<Rightarrow> socket_client" where
  "ws_close c =
     (case readyState c of
        CONNECTING \<Rightarrow> c\<lparr>readyState := CLOSING\<rparr>
      | OPEN \<Rightarrow> c\<lparr>readyState := CLOSING\<rparr>
      | _ \<Rightarrow> c)"

text \<open>
  \<^verbatim>\<open>asset.toUpperCase()\<close> on ASCII text, which is all the callers pass
  (\<^verbatim>\<open>'BTC'\<close>, \<^verbatim>\<open>'ETH'\<close>): the letters a to z are mapped, every other character is
  kept.
\<close>

definition toUpperCase :: "string \<Rightarrow> string" where
  "toUpperCase s =
     map (\<lambda>c. let n = (of_char c :: nat) in if 97 \<le> n \<and> n \<le> 122 then char_of (n - 32) else c) s"

definition new_client :: socket_client where
  "new_client = \<lparr>readyState = CONNECTING, promise = Pending, sent = []\<rparr>"

definition onopen :: "string \<Rightarrow> socket_client \<Rightarrow> socket_client" where
  "onopen asset c =
     c\<lparr>readyState := OPEN,
       sent := sent c @ [\<lparr>rpc_method = ''public/get_historical_volatility'',
                          currency = toUpperCase asset\<rparr>]\<rparr>"

text \<open>
  \<^verbatim>\<open>event.data\<close> of a message: text that \<^verbatim>\<open>JSON.parse\<close> rejects, or the parsed
  document.
\<close>

datatype message_data = Unparsable | Parsed json

fun isArray :: "js_value \<Rightarrow> bool" where
  "isArray (Val (JArr xs)) = True"
| "isArray v = False"

fun array_items :: "js_value \<Rightarrow> json list" where
  "array_items (Val (JArr xs)) = xs"
| "array_items v = []"

fun get_message :: "js_value \<Rightarrow> fetch_error + js_value" where
  "get_message (Val ej) = get_named ej ''message''"
| "get_message Undefined = Inl TypeError"

text \<open>
  The body of the \<^verbatim>\<open>try\<close> block of \<^verbatim>\<open>ws.onmessage\<close> after \<^verbatim>\<open>JSON.parse\<close>:
  \<open>Inl\<close> is an exception thrown inside it, before \<^verbatim>\<open>resolve\<close>, \<^verbatim>\<open>reject\<close> or
  \<^verbatim>\<open>ws.close()\<close> ran. \<open>now\<close> is the reading of \<^verbatim>\<open>Date.now()\<close>.
\<close>

definition message_body :: "json \<Rightarrow> int \<Rightarrow> socket_client \<Rightarrow> fetch_error + socket_client" where
  "message_body data now c =
     (case get_named data ''result'' of
        Inl e \<Rightarrow> Inl e
      | Inr result \<Rightarrow>
          if truthy result \<and> isArray result \<and> 0 < length (array_items result)
          then (case get_index1 (array_items result ! (length (array_items result) - 1)) of
                  Inl e \<Rightarrow> Inl e
                | Inr v \<Rightarrow>
                    (case call_toFixed2 v of
                       Inl e \<Rightarrow> Inl e
                     | Inr latestVolatility \<Rightarrow>
                         Inr (ws_close
                           (resolve \<lparr>volatility = latestVolatility, timestamp = now\<rparr> c))))
          else (case get_named data ''error'' of
                  Inl e \<Rightarrow> Inl e
                | Inr err \<Rightarrow>
                    if truthy err
                    then (case get_message err of
                            Inl e \<Rightarrow> Inl e
                          | Inr msg \<Rightarrow> Inr (ws_close (reject (ServerError msg) c)))
                    else Inr (ws_close (reject InvalidResponseFormat c))))"

definition onmessage :: "message_data \<Rightarrow> int \<Rightarrow> socket_client \<Rightarrow> socket_client" where
  "onmessage event_data now c =
     (case event_data of
        Unparsable \<Rightarrow> reject SyntaxError c
      | Parsed data \<Rightarrow>
          (case message_body data now c of
             Inl e \<Rightarrow> reject e c
           | Inr c' \<Rightarrow> c'))"

definition onerror :: "socket_client \<Rightarrow> socket_client" where
  "onerror c = reject TransportError c"

definition ontimeout :: "socket_client \<Rightarrow> socket_client" where
  "ontimeout c = (if readyState c = OPEN then reject WebSocketTimeout (ws_close c) else c)"

section \<open>Notions of the specification\<close>

text \<open>
  The two parameters of the pricing formula as the specification writes them; the code
  computes them inline in both functions above.
\<close>

definition spec_d1 :: "real \<Rightarrow> real \<Rightarrow> real \<Rightarrow> real \<Rightarrow> real \<Rightarrow> real" where
  "spec_d1 S K T v r = (ln (S / K) + (r + v\<^sup>2 / 2) * T) / (v * sqrt T)"

definition spec_d2 :: "real \<Rightarrow> real \<Rightarrow> real \<Rightarrow> real \<Rightarrow> real \<Rightarrow> real" where
  "spec_d2 S K T v r = spec_d1 S K T v r - v * sqrt T"

definition valid_contract :: "real \<Rightarrow> real \<Rightarrow> real \<Rightarrow> real \<Rightarrow> bool" where
  "valid_contract S K T v \<longleftrightarrow> 0 < S \<and> 0 < K \<and> 0 < T \<and> 0 < v"


text \<open>Truncation to two decimal places, towards zero.\<close>

definition spec_truncate2 :: "real \<Rightarrow> real" where
  "spec_truncate2 x =
     (if x < 0 then - (of_int \<lfloor>- x * 100\<rfloor> / 100) else of_int \<lfloor>x * 100\<rfloor> / 100)"

section \<open>Auxiliary terms\<close>

text \<open>
  The complementary term \<open>1 - erf\<close> of \<open>normalCDF\<close>, and the sum of the values of
  \<open>normalCDF\<close> at \<open>x\<close> and \<open>- x\<close>.
\<close>

definition erfc_term :: "real \<Rightarrow> real" where
  "erfc_term x0 =
     (let a1 = 0.254829592;
          a2 = - 0.284496736;
          a3 = 1.421413741;
          a4 = - 1.453152027;
          a5 = 1.061405429;
          p = 0.3275911;
          x = \<bar>x0\<bar> / sqrt 2;
          t = 1 / (1 + p * x)
      in ((((a5 * t + a4) * t + a3) * t + a2) * t + a1) * t * exp (- x * x))"


text \<open>
  Names for the three quantities \<open>generateData\<close> computes before its loop, and for the
  price the loop variable holds in iteration \<open>i\<close>: \<open>minPrice\<close>, then \<open>step\<close> added \<open>i\<close>
  times, each sum rounded.
\<close>

definition minPrice_of :: "real \<Rightarrow> real \<Rightarrow> real" where
  "minPrice_of S K = max 0 (fl (K - fl (S * 0.75)))"

definition maxPrice_of :: "real \<Rightarrow> real \<Rightarrow> real" where
  "maxPrice_of S K = fl (K + fl (S * 0.75))"

definition step_of :: "real \<Rightarrow> real \<Rightarrow> real" where
  "step_of S K = fl (fl (maxPrice_of S K - minPrice_of S K) / 100)"

definition samplePrice :: "real \<Rightarrow> real \<Rightarrow> nat \<Rightarrow> real" where
  "samplePrice S K i = ((\<lambda>q. fl (q + step_of S K)) ^^ i) (minPrice_of S K)"

text \<open>
  The polynomial of \<open>normalCDF_double\<close> in Horner form, the term it subtracts from 1, the
  parameter \<open>d1\<close> of \<open>calculateGreeks_double\<close>, and a bound on the rounding error of one
  operation on operands of magnitude at most 4.
\<close>

definition horner_double :: "real \<Rightarrow> real" where
  "horner_double t =
     fl (fl (fl (fl (fl (fl (fl (fl (fl 1.061405429 * t) + - fl 1.453152027) * t)
                         + fl 1.421413741) * t)
                + - fl 0.284496736) * t)
         + fl 0.254829592)"

definition tail_double :: "real \<Rightarrow> real" where
  "tail_double x =
     (let t = fl (1 / fl (1 + fl (fl 0.3275911 * x)))
      in fl (fl (horner_double t * t) * fl (exp (fl (- x * x)))))"


definition d1_double :: "real \<Rightarrow> real \<Rightarrow> real \<Rightarrow> real \<Rightarrow> real \<Rightarrow> real" where
  "d1_double S K T v r =
     fl (fl (fl (ln (fl (S / K))) + fl (fl (r + fl (fl (0.5 * v) * v)) * T))
         / fl (v * fl (sqrt T)))"

definition eta :: real where
  "eta = 1 / 2 ^ 51"


section \<open>Pricing formula\<close>

lemma inline_d1: "(ln (S / K) + (r + 0.5 * v * v) * T) / (v * sqrt T) = spec_d1 S K T v r"
  by (simp add: spec_d1_def power2_eq_square)

lemma premium_valid:
  assumes "valid_contract S K T v"
  shows "calculateOptionPremium S K T v r isCall =
           (if isCall
            then S * normalCDF (spec_d1 S K T v r)
                 - K * exp (- r * T) * normalCDF (spec_d2 S K T v r)
            else K * exp (- r * T) * normalCDF (- spec_d2 S K T v r)
                 - S * normalCDF (- spec_d1 S K T v r))"
proof -
  from assms have guard: "\<not> (S \<le> 0 \<or> K \<le> 0 \<or> T \<le> 0 \<or> v \<le> 0)"
    by (auto simp: valid_contract_def)
  show ?thesis
    unfolding calculateOptionPremium_def Let_def inline_d1 spec_d2_def
    using guard by simp
qed

text \<open>
  C1. For a contract with \<open>S > 0\<close>, \<open>K > 0\<close>, \<open>T > 0\<close>, \<open>\<sigma> > 0\<close> and any rate \<open>r\<close>,
  \<open>calculateOptionPremium\<close> returns \<open>S N(d1) - K e\<^sup>-\<^sup>r\<^sup>T N(d2)\<close> for a call and
  \<open>K e\<^sup>-\<^sup>r\<^sup>T N(-d2) - S N(-d1)\<close> for a put, with \<open>d1\<close>, \<open>d2\<close> as the specification
  defines them and \<open>N\<close> the implemented \<open>normalCDF\<close>.
\<close>

theorem calculateOptionPremium_formula:
  assumes "0 < S" and "0 < K" and "0 < T" and "0 < v"
  shows "calculateOptionPremium S K T v r True =
           S * normalCDF (spec_d1 S K T v r)
           - K * exp (- r * T) * normalCDF (spec_d2 S K T v r)
         \<and> calculateOptionPremium S K T v r False =
           K * exp (- r * T) * normalCDF (- spec_d2 S K T v r)
           - S * normalCDF (- spec_d1 S K T v r)"
proof -
  from assms have "valid_contract S K T v"
    by (simp add: valid_contract_def)
  then show ?thesis
    by (simp add: premium_valid)
qed

theorem calculateOptionPremium_formula_witness:
  "(0::real) < 100 \<and> (0::real) < 1 \<and> (0::real) < 0.2
   \<and> calculateOptionPremium 100 100 1 0.2 0.05 True =
       100 * normalCDF (spec_d1 100 100 1 0.2 0.05)
       - 100 * exp (- 0.05 * 1) * normalCDF (spec_d2 100 100 1 0.2 0.05)
   \<and> calculateOptionPremium 100 100 1 0.2 0.05 False =
       100 * exp (- 0.05 * 1) * normalCDF (- spec_d2 100 100 1 0.2 0.05)
       - 100 * normalCDF (- spec_d1 100 100 1 0.2 0.05)"
  using calculateOptionPremium_formula [of 100 100 1 "0.2" "0.05"] by simp

section \<open>Greeks\<close>

lemma greeks_valid:
  assumes "valid_contract S K T v"
  shows "calculateGreeks S K T v r isCall =
           \<lparr>delta = (if isCall then normalCDF (spec_d1 S K T v r)
                     else normalCDF (spec_d1 S K T v r) - 1),
            gamma = normalPDF (spec_d1 S K T v r) / (S * v * sqrt T),
            theta = (if isCall
                     then (- (S * v * normalPDF (spec_d1 S K T v r)) / (2 * sqrt T)
                           - r * K * exp (- r * T) * normalCDF (spec_d2 S K T v r)) / 365
                     else (- (S * v * normalPDF (spec_d1 S K T v r)) / (2 * sqrt T)
                           + r * K * exp (- r * T) * normalCDF (- spec_d2 S K T v r)) / 365),
            vega = S * normalPDF (spec_d1 S K T v r) * sqrt T * 0.01,
            rho = (if isCall
                   then K * T * exp (- r * T) * normalCDF (spec_d2 S K T v r) * 0.01
                   else - K * T * exp (- r * T) * normalCDF (- spec_d2 S K T v r) * 0.01)\<rparr>"
proof -
  from assms have guard: "\<not> (S \<le> 0 \<or> K \<le> 0 \<or> T \<le> 0 \<or> v \<le> 0)"
    by (auto simp: valid_contract_def)
  show ?thesis
    unfolding calculateGreeks_def Let_def inline_d1 spec_d2_def
    using guard by simp
qed

text \<open>
  C2. For a valid contract, \<open>calculateGreeks\<close> returns
  delta \<open>N(d1)\<close> (call) or \<open>N(d1) - 1\<close> (put);
  gamma \<open>N'(d1) / (S \<sigma> \<surd>T)\<close>, the same for both sides;
  vega \<open>S N'(d1) \<surd>T 0.01\<close>;
  theta \<open>(- S \<sigma> N'(d1) / (2 \<surd>T) - r K e\<^sup>-\<^sup>r\<^sup>T N(d2)) / 365\<close> (call) or
  \<open>(- S \<sigma> N'(d1) / (2 \<surd>T) + r K e\<^sup>-\<^sup>r\<^sup>T N(-d2)) / 365\<close> (put);
  rho \<open>K T e\<^sup>-\<^sup>r\<^sup>T N(d2) 0.01\<close> (call) or \<open>- K T e\<^sup>-\<^sup>r\<^sup>T N(-d2) 0.01\<close> (put),
  with \<open>N\<close>, \<open>N'\<close> the implemented \<open>normalCDF\<close> and \<open>normalPDF\<close>.
\<close>

theorem calculateGreeks_formulas:
  assumes "0 < S" and "0 < K" and "0 < T" and "0 < v"
  shows "delta (calculateGreeks S K T v r True) = normalCDF (spec_d1 S K T v r)
       \<and> delta (calculateGreeks S K T v r False) = normalCDF (spec_d1 S K T v r) - 1
       \<and> gamma (calculateGreeks S K T v r True) = normalPDF (spec_d1 S K T v r) / (S * v * sqrt T)
       \<and> gamma (calculateGreeks S K T v r False) = gamma (calculateGreeks S K T v r True)
       \<and> vega (calculateGreeks S K T v r True) = S * normalPDF (spec_d1 S K T v r) * sqrt T * 0.01
       \<and> vega (calculateGreeks S K T v r False) = S * normalPDF (spec_d1 S K T v r) * sqrt T * 0.01
       \<and> theta (calculateGreeks S K T v r True) =
           (- S * v * normalPDF (spec_d1 S K T v r) / (2 * sqrt T)
            - r * K * exp (- r * T) * normalCDF (spec_d2 S K T v r)) / 365
       \<and> theta (calculateGreeks S K T v r False) =
           (- S * v * normalPDF (spec_d1 S K T v r) / (2 * sqrt T)
            + r * K * exp (- r * T) * normalCDF (- spec_d2 S K T v r)) / 365
       \<and> rho (calculateGreeks S K T v r True) =
           K * T * exp (- r * T) * normalCDF (spec_d2 S K T v r) * 0.01
       \<and> rho (calculateGreeks S K T v r False) =
           - K * T * exp (- r * T) * normalCDF (- spec_d2 S K T v r) * 0.01"
proof -
  from assms have "valid_contract S K T v"
    by (simp add: valid_contract_def)
  then show ?thesis
    by (simp add: greeks_valid)
qed

theorem calculateGreeks_formulas_witness:
  "(0::real) < 100 \<and> (0::real) < 1 \<and> (0::real) < 0.2
   \<and> delta (calculateGreeks 100 100 1 0.2 0.05 True) = normalCDF (spec_d1 100 100 1 0.2 0.05)
   \<and> delta (calculateGreeks 100 100 1 0.2 0.05 False) = normalCDF (spec_d1 100 100 1 0.2 0.05) - 1
   \<and> gamma (calculateGreeks 100 100 1 0.2 0.05 False) = gamma (calculateGreeks 100 100 1 0.2 0.05 True)
   \<and> rho (calculateGreeks 100 100 1 0.2 0.05 True) =
       100 * 1 * exp (- 0.05 * 1) * normalCDF (spec_d2 100 100 1 0.2 0.05) * 0.01"
  using calculateGreeks_formulas [of 100 100 1 "0.2" "0.05"] by simp

section \<open>Degenerate contracts\<close>

text \<open>
  Under the negated guard every partial operation of the two functions is applied inside
  its domain: the argument of the logarithm is positive, the argument of the square root
  is positive, and no divisor is zero.
\<close>

lemma guard_protects_operations:
  assumes "\<not> (S \<le> 0 \<or> K \<le> 0 \<or> T \<le> 0 \<or> v \<le> 0)"
  shows "K \<noteq> 0 \<and> 0 < S / K \<and> 0 < T \<and> v * sqrt T \<noteq> 0 \<and> S * v * sqrt T \<noteq> 0
         \<and> 2 * sqrt T \<noteq> 0"
  using assms by simp

text \<open>
  C3. If \<open>S \<le> 0\<close> or \<open>K \<le> 0\<close> or \<open>T \<le> 0\<close> or \<open>\<sigma> \<le> 0\<close>, whatever the rate and the
  side, \<open>calculateOptionPremium\<close> returns exactly 0 and \<open>calculateGreeks\<close> returns the
  record with all five Greeks 0. Both are ordinary return values: the guard is the first
  statement of either function, so the result does not depend on any division, logarithm
  or square root.
\<close>

theorem degenerate_contract_zero:
  assumes "S \<le> 0 \<or> K \<le> 0 \<or> T \<le> 0 \<or> v \<le> 0"
  shows "calculateOptionPremium S K T v r isCall = 0
       \<and> calculateGreeks S K T v r isCall = \<lparr>delta = 0, gamma = 0, theta = 0, vega = 0, rho = 0\<rparr>"
  using assms unfolding calculateOptionPremium_def calculateGreeks_def by simp

theorem degenerate_contract_zero_witness:
  "((100::real) \<le> 0 \<or> (100::real) \<le> 0 \<or> (0::real) \<le> 0 \<or> (0.5::real) \<le> 0)
   \<and> calculateOptionPremium 100 100 0 0.5 0.05 True = 0
   \<and> calculateGreeks 100 100 0 0.5 0.05 True = \<lparr>delta = 0, gamma = 0, theta = 0, vega = 0, rho = 0\<rparr>"
  using degenerate_contract_zero [of 100 100 0 "0.5" "0.05" True] by simp

section \<open>The approximation of the normal distribution function\<close>

text \<open>
  \<open>normalCDF\<close> splits on the sign of its argument; zero goes with the positive side.
  At zero the five coefficients add up to \<open>0.999999999\<close>, not to 1.
\<close>

lemma normalCDF_split:
  "normalCDF x = (if x < 0 then erfc_term x / 2 else 1 - erfc_term x / 2)"
proof -
  define E where "E = erfc_term x"
  have "normalCDF x = 0.5 * (1 + (if x < 0 then - 1 else 1) * (1 - E))"
    unfolding normalCDF_def erfc_term_def E_def Let_def by (rule refl)
  then show ?thesis
    unfolding E_def by (auto simp: field_simps)
qed








section \<open>Put-call parity\<close>






lemma sqrt_256: "sqrt (1 / 256) = 1 / 16"
  by (rule real_sqrt_unique) (simp_all add: power2_eq_square)





section \<open>Ranges of the Greeks in exact arithmetic\<close>

text \<open>
  The polynomial of the approximation is positive and below 2 on \<open>[0, 1]\<close>, so in exact
  arithmetic \<open>normalCDF\<close> lies strictly between 0 and 1.
\<close>

lemma as_poly_expand:
  fixes t :: real
  shows "((((1.061405429 * t + (- 1.453152027)) * t + 1.421413741) * t + (- 0.284496736)) * t
            + 0.254829592)
         = 0.254829592 - 0.284496736 * t + 1.421413741 * t^2 - 1.453152027 * t^3
           + 1.061405429 * t^4"
  by (simp add: power2_eq_square power3_eq_cube power4_eq_xxxx algebra_simps)

lemma as_poly_ge:
  fixes t :: real
  assumes "0 \<le> t" and "t \<le> 1"
  shows "1 / 5 \<le> ((((1.061405429 * t + (- 1.453152027)) * t + 1.421413741) * t
                    + (- 0.284496736)) * t + 0.254829592)"
proof -
  define s where "s = t^2"
  define u where "u = t^3"
  define w where "w = t^4"
  have "0 \<le> (t * (t - 0.6845))^2" by simp
  also have "(t * (t - 0.6845))^2 = t^4 - 1.369 * t^3 + 0.46854025 * t^2"
    by (simp add: power2_eq_square power3_eq_cube power4_eq_xxxx algebra_simps)
  finally have h1: "0 \<le> w - 1.369 * u + 0.46854025 * s"
    by (simp only: s_def u_def w_def)
  have "0 \<le> t^2 * (1 - t)" using assms by simp
  also have "t^2 * (1 - t) = t^2 - t^3"
    by (simp add: power2_eq_square power3_eq_cube algebra_simps)
  finally have h2: "0 \<le> s - u"
    by (simp only: s_def u_def)
  have "0 \<le> (t - 0.154)^2" by simp
  also have "(t - 0.154)^2 = t^2 - 0.308 * t + 0.023716"
    by (simp add: power2_eq_square algebra_simps)
  finally have h3: "0 \<le> s - 0.308 * t + 0.023716"
    by (simp only: s_def)
  have "1 / 5 \<le> 0.254829592 - 0.284496736 * t + 1.421413741 * s - 1.453152027 * u
           + 1.061405429 * w"
    using h1 h2 h3 assms by simp
  then show ?thesis by (simp only: as_poly_expand s_def u_def w_def)
qed

lemma as_poly_le:
  fixes t :: real
  assumes "0 \<le> t" and "t \<le> 1"
  shows "((((1.061405429 * t + (- 1.453152027)) * t + 1.421413741) * t + (- 0.284496736)) * t
            + 0.254829592) \<le> 17 / 10"
proof -
  define s where "s = t^2"
  define u where "u = t^3"
  define w where "w = t^4"
  have "0 \<le> t^3 * (1 - t)" using assms by simp
  also have "t^3 * (1 - t) = t^3 - t^4"
    by (simp add: power3_eq_cube power4_eq_xxxx algebra_simps)
  finally have h1: "0 \<le> u - w"
    by (simp only: u_def w_def)
  have h2: "0 \<le> u" using assms by (simp add: u_def)
  have h3: "s \<le> 1" using assms by (simp add: s_def power_le_one)
  have "0.254829592 - 0.284496736 * t + 1.421413741 * s - 1.453152027 * u
           + 1.061405429 * w \<le> 17 / 10"
    using h1 h2 h3 assms by simp
  then show ?thesis by (simp only: as_poly_expand s_def u_def w_def)
qed

lemma erfc_term_bounds: "0 < erfc_term x \<and> erfc_term x < 2"
proof -
  define y where "y = \<bar>x\<bar> / sqrt 2"
  define t where "t = 1 / (1 + 0.3275911 * y)"
  define P where "P = ((((1.061405429 * t + (- 1.453152027)) * t + 1.421413741) * t
                        + (- 0.284496736)) * t + 0.254829592)"
  have y0: "0 \<le> y" by (simp add: y_def)
  have t0: "0 < t" using y0 by (simp add: t_def add_pos_nonneg)
  have t1: "t \<le> 1" using y0 by (simp add: t_def add_pos_nonneg)
  have P0: "0 < P" unfolding P_def using as_poly_ge [of t] t0 t1 by simp
  have P2: "P < 2" unfolding P_def using as_poly_le [of t] t0 t1 by simp
  have e0: "0 < exp (- y * y)" by simp
  have e1: "exp (- y * y) \<le> 1" using y0 by simp
  have eq: "erfc_term x = P * t * exp (- y * y)"
    unfolding erfc_term_def Let_def P_def t_def y_def by (rule refl)
  have pos: "0 < P * t * exp (- y * y)" using P0 t0 e0 by simp
  have "P * t \<le> P * 1" using P0 t1 by (intro mult_left_mono) simp_all
  then have "P * t * exp (- y * y) \<le> P * 1 * 1"
    using e1 P0 t0 by (intro mult_mono) simp_all
  with P2 have "P * t * exp (- y * y) < 2" by simp
  with pos eq show ?thesis by simp
qed

lemma normalCDF_bounds: "0 < normalCDF x \<and> normalCDF x < 1"
  using erfc_term_bounds [of x] by (simp add: normalCDF_split)

lemma normalPDF_pos: "0 < normalPDF x"
  by (simp add: normalPDF_def)

lemma greeks_ranges_exact:
  assumes "0 < S" and "0 < K" and "0 < T" and "0 < v"
  shows "0 < delta (calculateGreeks S K T v r True) \<and> delta (calculateGreeks S K T v r True) < 1
       \<and> - 1 < delta (calculateGreeks S K T v r False)
       \<and> delta (calculateGreeks S K T v r False) < 0
       \<and> 0 \<le> gamma (calculateGreeks S K T v r isCall)
       \<and> 0 \<le> vega (calculateGreeks S K T v r isCall)"
proof -
  from assms have valid: "valid_contract S K T v"
    by (simp add: valid_contract_def)
  have pdf: "0 < normalPDF (spec_d1 S K T v r)"
    by (rule normalPDF_pos)
  have "0 < S * v * sqrt T" using assms by simp
  with pdf have g: "0 \<le> normalPDF (spec_d1 S K T v r) / (S * v * sqrt T)" by simp
  have "0 \<le> S * normalPDF (spec_d1 S K T v r) * sqrt T" using assms pdf by simp
  then have w: "0 \<le> S * normalPDF (spec_d1 S K T v r) * sqrt T * 0.01" by simp
  from normalCDF_bounds [of "spec_d1 S K T v r"] g w show ?thesis
    by (simp add: greeks_valid [OF valid])
qed

section \<open>Rounding to binary64\<close>

text \<open>
  \<open>fl\<close> is odd and monotone, leaves every number with a 53-bit significand unchanged,
  and moves a number by at most \<open>2\<^sup>-\<^sup>5\<^sup>3\<close> of its magnitude. Within one binade it is
  rounding to a fixed grid.
\<close>

lemma round_even_of_int [simp]: "round_even (of_int z) = z"
  by (simp add: round_even_def)

lemma round_even_err: "\<bar>of_int (round_even y) - y\<bar> \<le> 1 / 2"
  unfolding round_even_def Let_def by (auto simp: abs_if) linarith+

lemma round_even_mono:
  assumes "y \<le> z"
  shows "round_even y \<le> round_even z"
proof (cases "\<lfloor>y\<rfloor> = \<lfloor>z\<rfloor>")
  case True
  with assms show ?thesis
    unfolding round_even_def Let_def by auto
next
  case False
  with assms have "\<lfloor>y\<rfloor> < \<lfloor>z\<rfloor>"
    using floor_mono [of y z] by linarith
  moreover have "round_even y \<le> \<lfloor>y\<rfloor> + 1" "\<lfloor>z\<rfloor> \<le> round_even z"
    unfolding round_even_def Let_def by auto
  ultimately show ?thesis by linarith
qed

lemma round_even_minus: "round_even (- y) = - round_even y"
proof (cases "y \<in> \<int>")
  case True
  then obtain z where "y = of_int z" by (auto elim: Ints_cases)
  then show ?thesis
    using round_even_of_int [of "- z"] by simp
next
  case False
  have ne: "of_int \<lfloor>y\<rfloor> \<noteq> y"
  proof
    assume "of_int \<lfloor>y\<rfloor> = y"
    then have "y \<in> \<int>" by (metis Ints_of_int)
    with False show False ..
  qed
  then have fl: "\<lfloor>- y\<rfloor> = - \<lfloor>y\<rfloor> - 1"
    by (simp add: floor_minus ceiling_altdef)
  from ne have d: "0 < y - of_int \<lfloor>y\<rfloor>" "y - of_int \<lfloor>y\<rfloor> < 1"
    by linarith+
  show ?thesis
    unfolding round_even_def Let_def fl using d by auto
qed

lemma binade_exists:
  assumes "x \<noteq> 0"
  shows "2 powr of_int \<lfloor>log 2 \<bar>x\<bar>\<rfloor> \<le> \<bar>x\<bar> \<and> \<bar>x\<bar> < 2 powr of_int (\<lfloor>log 2 \<bar>x\<bar>\<rfloor> + 1)"
  using assms floor_log_eq_powr_iff [of "\<bar>x\<bar>" 2 "\<lfloor>log 2 \<bar>x\<bar>\<rfloor>"] by simp

lemma fl_binade:
  assumes "2 powr of_int e \<le> \<bar>x\<bar>" and "\<bar>x\<bar> < 2 powr of_int (e + 1)"
  shows "fl x = of_int (round_even (x / 2 powr (of_int e - 52))) * 2 powr (of_int e - 52)"
proof -
  have "0 < (2::real) powr of_int e" by simp
  with assms(1) have pos: "0 < \<bar>x\<bar>" by linarith
  then have "\<lfloor>log 2 \<bar>x\<bar>\<rfloor> = e"
    using assms floor_log_eq_powr_iff [of "\<bar>x\<bar>" 2 e] by simp
  with pos show ?thesis
    by (simp add: fl_def Let_def)
qed

lemma fl_zero [simp]: "fl 0 = 0"
  by (simp add: fl_def)

lemma fl_minus: "fl (- x) = - fl x"
  by (simp add: fl_def Let_def round_even_minus)

lemma ulp_eq:
  "(2::real) powr (of_int e - 52) = 2 powr of_int e / 2 ^ 52"
  "(2::real) powr of_int (e + 1) = 2 * 2 powr of_int e"
  by (simp_all add: powr_diff powr_add)

lemma scaled_binade:
  fixes x :: real
  assumes "2 powr of_int e \<le> x" and "x < 2 powr of_int (e + 1)"
  shows "2 ^ 52 \<le> x / 2 powr (of_int e - 52) \<and> x / 2 powr (of_int e - 52) < 2 ^ 53"
proof -
  define w :: real where "w = 2 powr of_int e"
  have w: "0 < w" by (simp add: w_def)
  from assms have "w \<le> x" "x < 2 * w"
    unfolding ulp_eq w_def by simp_all
  with w show ?thesis
    unfolding ulp_eq w_def [symmetric] by (simp add: field_simps)
qed

lemma fl_pos_range:
  assumes "2 powr of_int e \<le> x" and "x < 2 powr of_int (e + 1)"
  shows "2 powr of_int e \<le> fl x \<and> fl x \<le> 2 powr of_int (e + 1)"
proof -
  define w :: real where "w = 2 powr of_int e"
  define u :: real where "u = 2 powr (of_int e - 52)"
  have w: "0 < w" by (simp add: w_def)
  have uw: "u = w / 2 ^ 52" unfolding u_def w_def by (rule ulp_eq)
  have x0: "0 < x" using assms(1) w unfolding w_def by linarith
  from scaled_binade [OF assms] have s: "2 ^ 52 \<le> x / u" "x / u < 2 ^ 53"
    by (simp_all add: u_def)
  have "round_even (of_int (2 ^ 52)) \<le> round_even (x / u)"
    by (rule round_even_mono) (use s in simp)
  then have "(2::int) ^ 52 \<le> round_even (x / u)"
    by (simp only: round_even_of_int)
  then have "of_int ((2::int) ^ 52) \<le> (of_int (round_even (x / u)) :: real)"
    by (simp only: of_int_le_iff)
  then have lo: "(2::real) ^ 52 \<le> of_int (round_even (x / u))"
    by simp
  have "round_even (x / u) \<le> round_even (of_int (2 ^ 53))"
    by (rule round_even_mono) (use s in simp)
  then have "round_even (x / u) \<le> (2::int) ^ 53"
    by (simp only: round_even_of_int)
  then have "(of_int (round_even (x / u)) :: real) \<le> of_int ((2::int) ^ 53)"
    by (simp only: of_int_le_iff)
  then have hi: "of_int (round_even (x / u)) \<le> (2::real) ^ 53"
    by simp
  have f: "fl x = of_int (round_even (x / u)) * u"
    unfolding u_def using assms x0 by (intro fl_binade) simp_all
  have "w \<le> of_int (round_even (x / u)) * u"
    using lo w unfolding uw by (simp add: field_simps)
  moreover have "of_int (round_even (x / u)) * u \<le> 2 * w"
    using hi w unfolding uw by (simp add: field_simps)
  ultimately show ?thesis
    unfolding f ulp_eq w_def by simp
qed

lemma fl_nonneg: "0 \<le> x \<Longrightarrow> 0 \<le> fl x"
proof (cases "x = 0")
  case False
  assume "0 \<le> x"
  with False have x: "0 < x" by simp
  from binade_exists [OF False] x
  have "2 powr of_int \<lfloor>log 2 \<bar>x\<bar>\<rfloor> \<le> x" "x < 2 powr of_int (\<lfloor>log 2 \<bar>x\<bar>\<rfloor> + 1)"
    by simp_all
  from fl_pos_range [OF this] have "2 powr of_int \<lfloor>log 2 \<bar>x\<bar>\<rfloor> \<le> fl x" ..
  moreover have "0 < (2::real) powr of_int \<lfloor>log 2 \<bar>x\<bar>\<rfloor>" by simp
  ultimately show ?thesis by linarith
qed simp

lemma fl_mono_pos:
  assumes "0 < x" and "x \<le> y"
  shows "fl x \<le> fl y"
proof -
  define e where "e = \<lfloor>log 2 \<bar>x\<bar>\<rfloor>"
  define e' where "e' = \<lfloor>log 2 \<bar>y\<bar>\<rfloor>"
  from assms have y: "0 < y" by simp
  from binade_exists [of x] assms have bx: "2 powr of_int e \<le> x" "x < 2 powr of_int (e + 1)"
    by (simp_all add: e_def)
  from binade_exists [of y] y have "by": "2 powr of_int e' \<le> y" "y < 2 powr of_int (e' + 1)"
    by (simp_all add: e'_def)
  have "(2::real) powr of_int e < 2 powr of_int (e' + 1)"
    using bx(1) "by"(2) assms(2) by linarith
  then have "e < e' + 1" by simp
  then consider "e = e'" | "e + 1 \<le> e'" by linarith
  then show ?thesis
  proof cases
    case 1
    define u :: real where "u = 2 powr (of_int e - 52)"
    have u: "0 < u" by (simp add: u_def)
    have fx: "fl x = of_int (round_even (x / u)) * u"
      unfolding u_def using bx assms(1) by (intro fl_binade) simp_all
    have fy: "fl y = of_int (round_even (y / u)) * u"
      unfolding u_def using "by" y 1 by (intro fl_binade) simp_all
    have "x / u \<le> y / u" using assms(2) u by (simp add: divide_right_mono)
    then have "round_even (x / u) \<le> round_even (y / u)" by (rule round_even_mono)
    then show ?thesis unfolding fx fy using u by simp
  next
    case 2
    from fl_pos_range [OF bx] have "fl x \<le> 2 powr of_int (e + 1)" ..
    also have "\<dots> \<le> 2 powr of_int e'" using 2 by simp
    also from fl_pos_range [OF "by"] have "\<dots> \<le> fl y" ..
    finally show ?thesis .
  qed
qed

lemma fl_mono:
  assumes "x \<le> y"
  shows "fl x \<le> fl y"
proof -
  consider "0 < x" | "x \<le> 0" "0 \<le> y" | "y < 0" by linarith
  then show ?thesis
  proof cases
    case 1
    from 1 assms show ?thesis by (rule fl_mono_pos)
  next
    case 2
    from 2(1) have "0 \<le> fl (- x)" by (intro fl_nonneg) simp
    then have "fl x \<le> 0" by (simp add: fl_minus)
    also from 2(2) have "0 \<le> fl y" by (rule fl_nonneg)
    finally show ?thesis .
  next
    case 3
    with assms have "0 < - y" "- y \<le> - x" by simp_all
    then have "fl (- y) \<le> fl (- x)" by (rule fl_mono_pos)
    then show ?thesis by (simp add: fl_minus)
  qed
qed

lemma fl_err: "\<bar>fl x - x\<bar> \<le> \<bar>x\<bar> / 2 ^ 53"
proof (cases "x = 0")
  case False
  define e where "e = \<lfloor>log 2 \<bar>x\<bar>\<rfloor>"
  define w :: real where "w = 2 powr of_int e"
  define u :: real where "u = 2 powr (of_int e - 52)"
  have w: "0 < w" by (simp add: w_def)
  have uw: "u = w / 2 ^ 52" unfolding u_def w_def by (rule ulp_eq)
  have u: "0 < u" by (simp add: u_def)
  from binade_exists [OF False] have b: "w \<le> \<bar>x\<bar>"
    by (simp add: w_def e_def)
  have f: "fl x = of_int (round_even (x / u)) * u"
    using False by (simp add: fl_def Let_def u_def e_def)
  have "fl x - x = (of_int (round_even (x / u)) - x / u) * u"
    unfolding f using u by (simp add: field_simps)
  then have "\<bar>fl x - x\<bar> = \<bar>of_int (round_even (x / u)) - x / u\<bar> * u"
    using u by (simp add: abs_mult)
  also have "\<dots> \<le> 1 / 2 * u"
    using round_even_err [of "x / u"] u by (intro mult_right_mono) simp_all
  also have "\<dots> = w / 2 ^ 53" unfolding uw by simp
  also have "\<dots> \<le> \<bar>x\<bar> / 2 ^ 53" using b by (simp add: divide_right_mono)
  finally show ?thesis .
qed simp

lemma fl_exact:
  assumes "\<bar>m\<bar> < 2 ^ 53"
  shows "fl (of_int m * 2 powr of_int j) = of_int m * 2 powr of_int j"
proof (cases "m = 0")
  case False
  define x :: real where "x = of_int m * 2 powr of_int j"
  define e where "e = \<lfloor>log 2 \<bar>x\<bar>\<rfloor>"
  have x0: "x \<noteq> 0" using False by (simp add: x_def)
  have ax: "\<bar>x\<bar> = of_int \<bar>m\<bar> * 2 powr of_int j" by (simp add: x_def abs_mult)
  from binade_exists [OF x0] have b: "2 powr of_int e \<le> \<bar>x\<bar>"
    by (simp add: e_def)
  have "of_int \<bar>m\<bar> < (2::real) ^ 53"
    using assms by (metis of_int_less_iff of_int_numeral of_int_power)
  then have "\<bar>x\<bar> < 2 ^ 53 * 2 powr of_int j"
    unfolding ax by (simp add: mult_strict_right_mono)
  also have "\<dots> = 2 powr of_int (j + 53)"
    using powr_add [of "2::real" "of_int j" 53] by (simp add: mult.commute)
  finally have "(2::real) powr of_int e < 2 powr of_int (j + 53)"
    using b by linarith
  then have "e < j + 53" by simp
  then have k: "0 \<le> j + 52 - e" by linarith
  define k where "k = nat (j + 52 - e)"
  have jk: "of_int j = (of_int e - 52) + real k"
    using k by (simp add: k_def)
  have p: "(2::real) powr of_int j = 2 powr (of_int e - 52) * 2 ^ k"
    unfolding jk by (simp add: powr_add powr_realpow)
  have "x / 2 powr (of_int e - 52) = of_int (m * 2 ^ k)"
    unfolding x_def p by simp
  then have "fl x = of_int (m * 2 ^ k) * 2 powr (of_int e - 52)"
    using x0 by (simp add: fl_def Let_def e_def del: of_int_mult of_int_power)
  also have "\<dots> = x" unfolding x_def p by simp
  finally show ?thesis unfolding x_def .
qed simp

lemma fl_int: "\<bar>k\<bar> < 2 ^ 53 \<Longrightarrow> fl (of_int k) = of_int k"
  using fl_exact [of k 0] by simp

lemma fl_div_pow2: "\<bar>k\<bar> < 2 ^ 53 \<Longrightarrow> fl (of_int k / 2 ^ n) = of_int k / 2 ^ n"
  using fl_exact [of k "- int n"] by (simp add: powr_minus powr_realpow divide_inverse)

lemma fl_mult_pow2: "\<bar>k\<bar> < 2 ^ 53 \<Longrightarrow> fl (of_int k * 2 ^ n) = of_int k * 2 ^ n"
  using fl_exact [of k "int n"] by (simp add: powr_realpow)

lemma fl_numeral [simp]: "(numeral n :: int) < 2 ^ 53 \<Longrightarrow> fl (numeral n) = numeral n"
  using fl_int [of "numeral n"] by simp

lemma fl_one [simp]: "fl 1 = 1"
  using fl_int [of 1] by simp

lemma fl_half [simp]: "(numeral n :: int) < 2 ^ 53 \<Longrightarrow> fl (numeral n / 2) = numeral n / 2"
  using fl_div_pow2 [of "numeral n" 1] by simp

lemma fl_quarter [simp]: "(numeral n :: int) < 2 ^ 53 \<Longrightarrow> fl (numeral n / 4) = numeral n / 4"
  using fl_div_pow2 [of "numeral n" 2] by simp

lemma fl_binade_small:
  assumes "1 / 2 ^ k \<le> \<bar>x\<bar>" and "\<bar>x\<bar> < 2 / 2 ^ k"
  shows "fl x = of_int (round_even (x * 2 ^ (52 + k))) / 2 ^ (52 + k)"
proof -
  have p: "(2::real) powr of_int (- int k) = 1 / 2 ^ k"
    by (simp add: powr_minus powr_realpow divide_inverse)
  have u: "(2::real) powr (of_int (- int k) - 52) = 1 / 2 ^ (52 + k)"
    unfolding ulp_eq p by (simp add: power_add)
  have a: "2 powr of_int (- int k) \<le> \<bar>x\<bar>"
    unfolding p by (rule assms(1))
  have b: "\<bar>x\<bar> < 2 powr of_int (- int k + 1)"
    unfolding ulp_eq p using assms(2) by simp
  show ?thesis
    unfolding fl_binade [OF a b] u by simp
qed

lemma fl_binade_mid:
  assumes "2 ^ k \<le> \<bar>x\<bar>" and "\<bar>x\<bar> < 2 * 2 ^ k" and "k \<le> 52"
  shows "fl x = of_int (round_even (x * 2 ^ (52 - k))) / 2 ^ (52 - k)"
proof -
  have p: "(2::real) powr of_int (int k) = 2 ^ k"
    by (simp add: powr_realpow)
  have "(2::real) ^ 52 = 2 ^ (52 - k) * 2 ^ k"
    using assms(3) by (simp add: power_add [symmetric])
  then have u: "(2::real) powr (of_int (int k) - 52) = 1 / 2 ^ (52 - k)"
    unfolding ulp_eq p by (simp add: field_simps)
  have a: "2 powr of_int (int k) \<le> \<bar>x\<bar>"
    unfolding p by (rule assms(1))
  have b: "\<bar>x\<bar> < 2 powr of_int (int k + 1)"
    unfolding ulp_eq p by (rule assms(2))
  show ?thesis
    unfolding fl_binade [OF a b] u by simp
qed

lemma round_even_up:
  assumes "of_int z + 1 / 2 < y" and "y < of_int z + 1"
  shows "round_even y = z + 1"
proof -
  have "\<lfloor>y\<rfloor> = z" using assms by linarith
  with assms show ?thesis by (simp add: round_even_def Let_def)
qed

lemma round_even_down:
  assumes "of_int z \<le> y" and "y < of_int z + 1 / 2"
  shows "round_even y = z"
proof -
  have "\<lfloor>y\<rfloor> = z" using assms by linarith
  with assms show ?thesis by (simp add: round_even_def Let_def)
qed

section \<open>The polynomial of the approximation in binary64\<close>

text \<open>
  Each of the eight rounded operations of the Horner scheme adds an error of at most
  \<open>eta\<close>, and each rounded coefficient is within \<open>eta\<close> of its decimal, so for \<open>t\<close> in
  \<open>[0, 1]\<close> the rounded value is within \<open>13 eta\<close> of the exact polynomial and stays
  between 0 and 2.
\<close>

lemma eta_bounds: "0 < eta" "eta \<le> 1 / 1000"
  by (simp_all add: eta_def)

lemma fl_close: "\<bar>z\<bar> \<le> 4 \<Longrightarrow> \<bar>fl z - z\<bar> \<le> eta"
proof -
  assume "\<bar>z\<bar> \<le> 4"
  then have "\<bar>z\<bar> / 2 ^ 53 \<le> 4 / 2 ^ 53" by (simp add: divide_right_mono)
  with fl_err [of z] show ?thesis by (simp add: eta_def)
qed

lemma add_step:
  assumes "\<bar>h - e\<bar> \<le> d" and "\<bar>A - a\<bar> \<le> eta" and "\<bar>e + a\<bar> \<le> 3 / 2" and "d \<le> 1"
  shows "\<bar>fl (h + A) - (e + a)\<bar> \<le> d + 2 * eta"
proof -
  have n: "\<bar>(h + A) - (e + a)\<bar> \<le> d + eta" using assms(1,2) by linarith
  with assms(3,4) eta_bounds have "\<bar>h + A\<bar> \<le> 4" by linarith
  from fl_close [OF this] n show ?thesis by linarith
qed

lemma mul_step:
  assumes "\<bar>h - e\<bar> \<le> d" and "0 \<le> t" and "t \<le> 1" and "\<bar>e * t\<bar> \<le> 3 / 2" and "d \<le> 1"
  shows "\<bar>fl (h * t) - e * t\<bar> \<le> d + eta"
proof -
  have "\<bar>h * t - e * t\<bar> = \<bar>h - e\<bar> * t"
    using assms(2) by (simp add: abs_mult left_diff_distrib [symmetric])
  also have "\<dots> \<le> \<bar>h - e\<bar> * 1" using assms(3) by (intro mult_left_mono) simp_all
  finally have n: "\<bar>h * t - e * t\<bar> \<le> d" using assms(1) by simp
  with assms(4,5) have "\<bar>h * t\<bar> \<le> 4" by linarith
  from fl_close [OF this] n show ?thesis by linarith
qed

lemma scale_bounds:
  fixes x :: real
  assumes "l \<le> 0" and "0 \<le> u" and "l \<le> x" and "x \<le> u" and "0 \<le> t" and "t \<le> 1"
  shows "l \<le> x * t \<and> x * t \<le> u"
proof -
  have "x * t \<le> u * t" using assms by (simp add: mult_right_mono)
  also have "\<dots> \<le> u * 1" using assms by (intro mult_left_mono) simp_all
  finally have a: "x * t \<le> u" by simp
  have "l * 1 \<le> l * t" using assms by (intro mult_left_mono_neg) simp_all
  also have "\<dots> \<le> x * t" using assms by (simp add: mult_right_mono)
  finally have "l \<le> x * t" by simp
  with a show ?thesis by simp
qed

lemma coef_close:
  assumes "0 \<le> c" and "c \<le> 4"
  shows "\<bar>fl c - c\<bar> \<le> eta" and "\<bar>- fl c - - c\<bar> \<le> eta"
proof -
  from assms have "\<bar>c\<bar> \<le> 4" by simp
  from fl_close [OF this] show "\<bar>fl c - c\<bar> \<le> eta" .
  then show "\<bar>- fl c - - c\<bar> \<le> eta" by linarith
qed

lemma horner_double_near:
  assumes t0: "0 \<le> t" and t1: "t \<le> 1"
  shows "\<bar>horner_double t
          - ((((1.061405429 * t + (- 1.453152027)) * t + 1.421413741) * t + (- 0.284496736)) * t
             + 0.254829592)\<bar> \<le> 13 * eta"
proof -
  define e1 where "e1 = 1.061405429 * t"
  define e2 where "e2 = e1 + (- 1.453152027)"
  define e3 where "e3 = e2 * t"
  define e4 where "e4 = e3 + 1.421413741"
  define e5 where "e5 = e4 * t"
  define e6 where "e6 = e5 + (- 0.284496736)"
  define e7 where "e7 = e6 * t"
  define e8 where "e8 = e7 + 0.254829592"
  define h1 where "h1 = fl (fl 1.061405429 * t)"
  define h2 where "h2 = fl (h1 + - fl 1.453152027)"
  define h3 where "h3 = fl (h2 * t)"
  define h4 where "h4 = fl (h3 + fl 1.421413741)"
  define h5 where "h5 = fl (h4 * t)"
  define h6 where "h6 = fl (h5 + - fl 0.284496736)"
  define h7 where "h7 = fl (h6 * t)"
  define h8 where "h8 = fl (h7 + fl 0.254829592)"
  note eb = eta_bounds
  have b1: "0 \<le> e1 \<and> e1 \<le> 1.061405429"
    unfolding e1_def using t0 t1 by (intro scale_bounds) simp_all
  have b2: "- 1.453152027 \<le> e2" "e2 \<le> 0"
    using b1 by (simp_all add: e2_def)
  have b3: "- 1.453152027 \<le> e3 \<and> e3 \<le> 0"
    unfolding e3_def using b2 t0 t1 by (intro scale_bounds) simp_all
  have b4: "- 1 / 10 \<le> e4" "e4 \<le> 1.421413741"
    using b3 by (simp_all add: e4_def)
  have b5: "- 1 / 10 \<le> e5 \<and> e5 \<le> 1.421413741"
    unfolding e5_def using b4 t0 t1 by (intro scale_bounds) simp_all
  have b6: "- 1 / 2 \<le> e6" "e6 \<le> 1.2"
    using b5 by (simp_all add: e6_def)
  have b7: "- 1 / 2 \<le> e7 \<and> e7 \<le> 1.2"
    unfolding e7_def using b6 t0 t1 by (intro scale_bounds) simp_all
  have b8: "- 1 / 2 \<le> e8" "e8 \<le> 3 / 2"
    using b7 by (simp_all add: e8_def)
  have c5: "\<bar>fl 1.061405429 - 1.061405429\<bar> \<le> eta"
    by (rule coef_close) simp_all
  have c4: "\<bar>- fl 1.453152027 - - 1.453152027\<bar> \<le> eta"
    by (rule coef_close) simp_all
  have c3: "\<bar>fl 1.421413741 - 1.421413741\<bar> \<le> eta"
    by (rule coef_close) simp_all
  have c2: "\<bar>- fl 0.284496736 - - 0.284496736\<bar> \<le> eta"
    by (rule coef_close) simp_all
  have c1: "\<bar>fl 0.254829592 - 0.254829592\<bar> \<le> eta"
    by (rule coef_close) simp_all
  have a1: "\<bar>e1\<bar> \<le> 3 / 2" using b1 by (auto simp: abs_le_iff)
  have a2: "\<bar>e2\<bar> \<le> 3 / 2" using b2 by (auto simp: abs_le_iff)
  have a3: "\<bar>e3\<bar> \<le> 3 / 2" using b3 by (auto simp: abs_le_iff)
  have a4: "\<bar>e4\<bar> \<le> 3 / 2" using b4 by (auto simp: abs_le_iff)
  have a5: "\<bar>e5\<bar> \<le> 3 / 2" using b5 by (auto simp: abs_le_iff)
  have a6: "\<bar>e6\<bar> \<le> 3 / 2" using b6 by (auto simp: abs_le_iff)
  have a7: "\<bar>e7\<bar> \<le> 3 / 2" using b7 by (auto simp: abs_le_iff)
  have a8: "\<bar>e8\<bar> \<le> 3 / 2" using b8 by (auto simp: abs_le_iff)
  have "\<bar>h1 - e1\<bar> \<le> eta + eta"
    unfolding h1_def e1_def
    by (rule mul_step [OF c5 t0 t1]) (use a1 eb in \<open>simp_all add: e1_def\<close>)
  then have d1: "\<bar>h1 - e1\<bar> \<le> 2 * eta" by simp
  have "\<bar>h2 - e2\<bar> \<le> 2 * eta + 2 * eta"
    unfolding h2_def e2_def
    by (rule add_step [OF d1 c4]) (use a2 eb in \<open>simp_all add: e2_def\<close>)
  then have d2: "\<bar>h2 - e2\<bar> \<le> 4 * eta" by simp
  have "\<bar>h3 - e3\<bar> \<le> 4 * eta + eta"
    unfolding h3_def e3_def
    by (rule mul_step [OF d2 t0 t1]) (use a3 eb in \<open>simp_all add: e3_def\<close>)
  then have d3: "\<bar>h3 - e3\<bar> \<le> 5 * eta" by simp
  have "\<bar>h4 - e4\<bar> \<le> 5 * eta + 2 * eta"
    unfolding h4_def e4_def
    by (rule add_step [OF d3 c3]) (use a4 eb in \<open>simp_all add: e4_def\<close>)
  then have d4: "\<bar>h4 - e4\<bar> \<le> 7 * eta" by simp
  have "\<bar>h5 - e5\<bar> \<le> 7 * eta + eta"
    unfolding h5_def e5_def
    by (rule mul_step [OF d4 t0 t1]) (use a5 eb in \<open>simp_all add: e5_def\<close>)
  then have d5: "\<bar>h5 - e5\<bar> \<le> 8 * eta" by simp
  have "\<bar>h6 - e6\<bar> \<le> 8 * eta + 2 * eta"
    unfolding h6_def e6_def
    by (rule add_step [OF d5 c2]) (use a6 eb in \<open>simp_all add: e6_def\<close>)
  then have d6: "\<bar>h6 - e6\<bar> \<le> 10 * eta" by simp
  have "\<bar>h7 - e7\<bar> \<le> 10 * eta + eta"
    unfolding h7_def e7_def
    by (rule mul_step [OF d6 t0 t1]) (use a7 eb in \<open>simp_all add: e7_def\<close>)
  then have d7: "\<bar>h7 - e7\<bar> \<le> 11 * eta" by simp
  have "\<bar>h8 - e8\<bar> \<le> 11 * eta + 2 * eta"
    unfolding h8_def e8_def
    by (rule add_step [OF d7 c1]) (use a8 eb in \<open>simp_all add: e8_def\<close>)
  then have d8: "\<bar>h8 - e8\<bar> \<le> 13 * eta" by simp
  have "horner_double t = h8"
    unfolding horner_double_def h8_def h7_def h6_def h5_def h4_def h3_def h2_def h1_def
    by (rule refl)
  moreover have "((((1.061405429 * t + (- 1.453152027)) * t + 1.421413741) * t
                   + (- 0.284496736)) * t + 0.254829592) = e8"
    unfolding e8_def e7_def e6_def e5_def e4_def e3_def e2_def e1_def by (rule refl)
  ultimately show ?thesis using d8 by (simp only:)
qed

lemma horner_double_range:
  assumes "0 \<le> t" and "t \<le> 1"
  shows "0 \<le> horner_double t \<and> horner_double t \<le> 2"
proof -
  define P where "P = ((((1.061405429 * t + (- 1.453152027)) * t + 1.421413741) * t
                         + (- 0.284496736)) * t + 0.254829592)"
  have n: "\<bar>horner_double t - P\<bar> \<le> 13 * eta"
    unfolding P_def by (rule horner_double_near [OF assms])
  have lo: "1 / 5 \<le> P" unfolding P_def by (rule as_poly_ge [OF assms])
  have hi: "P \<le> 17 / 10" unfolding P_def by (rule as_poly_le [OF assms])
  from n lo hi eta_bounds show ?thesis by linarith
qed

section \<open>Ranges of the Greeks in binary64\<close>

lemma normalCDF_double_split:
  "normalCDF_double x0 =
     fl (0.5 * fl (1 + fl ((if x0 < 0 then - 1 else 1)
                           * fl (1 - tail_double (fl (\<bar>x0\<bar> / fl (sqrt 2)))))))"
  unfolding normalCDF_double_def tail_double_def horner_double_def Let_def by (rule refl)

lemma fl_ge: "a \<le> x \<Longrightarrow> fl a = a \<Longrightarrow> a \<le> fl x"
  using fl_mono [of a x] by simp

lemma fl_le: "x \<le> b \<Longrightarrow> fl b = b \<Longrightarrow> fl x \<le> b"
  using fl_mono [of x b] by simp

lemma fl_two [simp]: "fl 2 = 2"
  using fl_int [of 2] by simp

lemma fl_neg_one [simp]: "fl (- 1) = - 1"
  by (simp add: fl_minus)

lemma scaled_arg_nonneg: "0 \<le> fl (\<bar>x0\<bar> / fl (sqrt 2))"
proof -
  have "0 \<le> fl (sqrt 2)" by (intro fl_nonneg) simp
  then show ?thesis by (intro fl_nonneg) simp
qed

lemma t_range:
  assumes "0 \<le> x"
  shows "0 \<le> fl (1 / fl (1 + fl (fl 0.3275911 * x)))
         \<and> fl (1 / fl (1 + fl (fl 0.3275911 * x))) \<le> 1"
proof -
  have "0 \<le> fl 0.3275911" by (intro fl_nonneg) simp
  with assms have "0 \<le> fl (fl 0.3275911 * x)" by (intro fl_nonneg) simp
  then have s: "1 \<le> fl (1 + fl (fl 0.3275911 * x))" by (intro fl_ge) simp_all
  then have "0 \<le> 1 / fl (1 + fl (fl 0.3275911 * x))" "1 / fl (1 + fl (fl 0.3275911 * x)) \<le> 1"
    by simp_all
  then show ?thesis by (auto intro: fl_nonneg fl_le)
qed

lemma tail_double_range:
  assumes "0 \<le> x"
  shows "0 \<le> tail_double x \<and> tail_double x \<le> 2"
proof -
  define t where "t = fl (1 / fl (1 + fl (fl 0.3275911 * x)))"
  define E where "E = fl (exp (fl (- x * x)))"
  from t_range [OF assms] have t: "0 \<le> t" "t \<le> 1" by (simp_all add: t_def)
  from horner_double_range [OF t] have H: "0 \<le> horner_double t" "horner_double t \<le> 2"
    by simp_all
  have "- x * x \<le> 0" using assms by (simp add: mult_nonneg_nonneg)
  then have "fl (- x * x) \<le> 0" by (intro fl_le) simp_all
  then have "exp (fl (- x * x)) \<le> 1" by simp
  then have E: "0 \<le> E" "E \<le> 1"
    unfolding E_def by (auto intro: fl_nonneg fl_le)
  have "0 \<le> horner_double t * t" using H t by simp
  moreover have "horner_double t * t \<le> 2 * 1" using H t by (intro mult_mono) simp_all
  ultimately have g: "0 \<le> fl (horner_double t * t)" "fl (horner_double t * t) \<le> 2"
    by (auto intro: fl_nonneg fl_le)
  have "0 \<le> fl (horner_double t * t) * E" using g E by simp
  moreover have "fl (horner_double t * t) * E \<le> 2 * 1" using g E by (intro mult_mono) simp_all
  ultimately have "0 \<le> fl (fl (horner_double t * t) * E)" "fl (fl (horner_double t * t) * E) \<le> 2"
    by (auto intro: fl_nonneg fl_le)
  then show ?thesis
    unfolding tail_double_def Let_def t_def E_def by simp
qed

lemma normalCDF_double_range: "0 \<le> normalCDF_double x0 \<and> normalCDF_double x0 \<le> 1"
proof -
  define q where "q = tail_double (fl (\<bar>x0\<bar> / fl (sqrt 2)))"
  define erf where "erf = fl (1 - q)"
  define se where "se = fl ((if x0 < 0 then - 1 else 1) * erf)"
  from tail_double_range [OF scaled_arg_nonneg, of x0] have q: "0 \<le> q" "q \<le> 2"
    by (simp_all add: q_def)
  have erf: "- 1 \<le> erf" "erf \<le> 1"
    unfolding erf_def using q by (auto intro: fl_ge fl_le)
  have se: "- 1 \<le> se" "se \<le> 1"
    unfolding se_def using erf by (auto intro: fl_ge fl_le)
  have w: "0 \<le> fl (1 + se)" "fl (1 + se) \<le> 2"
    using se by (auto intro: fl_nonneg fl_le)
  then have "0 \<le> fl (0.5 * fl (1 + se))" "fl (0.5 * fl (1 + se)) \<le> 1"
    by (auto intro: fl_nonneg fl_le)
  then show ?thesis
    unfolding normalCDF_double_split se_def erf_def q_def by simp
qed



lemma greeks_double_valid:
  assumes "0 < S" and "0 < K" and "0 < T" and "0 < v"
  shows "delta (calculateGreeks_double S K T v r True) = normalCDF_double (d1_double S K T v r)"
    and "delta (calculateGreeks_double S K T v r False)
         = fl (normalCDF_double (d1_double S K T v r) - 1)"
    and "gamma (calculateGreeks_double S K T v r isCall)
         = fl (normalPDF_double (d1_double S K T v r) / fl (fl (S * v) * fl (sqrt T)))"
    and "vega (calculateGreeks_double S K T v r isCall)
         = fl (fl (fl (S * normalPDF_double (d1_double S K T v r)) * fl (sqrt T)) * fl 0.01)"
proof -
  from assms have guard: "(S \<le> 0 \<or> K \<le> 0 \<or> T \<le> 0 \<or> v \<le> 0) = False"
    by simp
  show "delta (calculateGreeks_double S K T v r True) = normalCDF_double (d1_double S K T v r)"
    by (simp only: calculateGreeks_double_def guard if_False if_True Let_def greeks.select_convs
          d1_double_def)
  show "delta (calculateGreeks_double S K T v r False)
         = fl (normalCDF_double (d1_double S K T v r) - 1)"
    by (simp only: calculateGreeks_double_def guard if_False Let_def greeks.select_convs
          d1_double_def)
  show "gamma (calculateGreeks_double S K T v r isCall)
         = fl (normalPDF_double (d1_double S K T v r) / fl (fl (S * v) * fl (sqrt T)))"
    by (simp only: calculateGreeks_double_def guard if_False Let_def greeks.select_convs
          d1_double_def)
  show "vega (calculateGreeks_double S K T v r isCall)
         = fl (fl (fl (S * normalPDF_double (d1_double S K T v r)) * fl (sqrt T)) * fl 0.01)"
    by (simp only: calculateGreeks_double_def guard if_False Let_def greeks.select_convs
          d1_double_def)
qed

lemma normalPDF_double_nonneg: "0 \<le> normalPDF_double x"
proof -
  have "0 \<le> fl (exp (fl (fl (- 0.5 * x) * x)))" by (intro fl_nonneg) simp
  moreover have "0 \<le> fl (sqrt (fl (2 * fl pi)))"
  proof -
    have "0 \<le> fl pi" by (intro fl_nonneg) simp
    then have "0 \<le> fl (2 * fl pi)" by (intro fl_nonneg) simp
    then show ?thesis by (intro fl_nonneg) simp
  qed
  ultimately show ?thesis
    unfolding normalPDF_double_def by (intro fl_nonneg) simp
qed

lemma greeks_double_ranges:
  assumes "0 < S" and "0 < K" and "0 < T" and "0 < v"
  shows "0 \<le> delta (calculateGreeks_double S K T v r True)"
    and "delta (calculateGreeks_double S K T v r True) \<le> 1"
    and "- 1 \<le> delta (calculateGreeks_double S K T v r False)"
    and "delta (calculateGreeks_double S K T v r False) \<le> 0"
    and "0 \<le> gamma (calculateGreeks_double S K T v r isCall)"
    and "0 \<le> vega (calculateGreeks_double S K T v r isCall)"
proof -
  note g = greeks_double_valid [OF assms]
  note n = normalCDF_double_range [of "d1_double S K T v r"]
  note p = normalPDF_double_nonneg [of "d1_double S K T v r"]
  show "0 \<le> delta (calculateGreeks_double S K T v r True)"
    and "delta (calculateGreeks_double S K T v r True) \<le> 1"
    unfolding g using n by simp_all
  show "- 1 \<le> delta (calculateGreeks_double S K T v r False)"
    unfolding g using n by (intro fl_ge) simp_all
  show "delta (calculateGreeks_double S K T v r False) \<le> 0"
    unfolding g using n by (intro fl_le) simp_all
  have "0 \<le> fl (S * v)" using assms by (intro fl_nonneg) simp
  moreover have s: "0 \<le> fl (sqrt T)" using assms by (intro fl_nonneg) simp
  ultimately have "0 \<le> fl (fl (S * v) * fl (sqrt T))" by (intro fl_nonneg) simp
  with p show "0 \<le> gamma (calculateGreeks_double S K T v r isCall)"
    unfolding g by (intro fl_nonneg) simp
  have "0 \<le> fl (S * normalPDF_double (d1_double S K T v r))"
    using assms p by (intro fl_nonneg) simp
  with s have "0 \<le> fl (fl (S * normalPDF_double (d1_double S K T v r)) * fl (sqrt T))"
    by (intro fl_nonneg) simp
  moreover have "0 \<le> fl 0.01" by (intro fl_nonneg) simp
  ultimately show "0 \<le> vega (calculateGreeks_double S K T v r isCall)"
    unfolding g by (intro fl_nonneg) simp
qed

lemma fl_inv_pow2: "fl (1 / 2 ^ n) = 1 / 2 ^ n"
  using fl_div_pow2 [of 1 n] by simp

lemma fl_below_one: "fl (1 - 1 / 2 ^ 63) = 1"
proof -
  have lo: "1 / 2 ^ 1 \<le> \<bar>1 - 1 / 2 ^ 63 :: real\<bar>" by simp
  have hi: "\<bar>1 - 1 / 2 ^ 63 :: real\<bar> < 2 / 2 ^ 1" by simp
  have r: "round_even ((1 - 1 / 2 ^ 63) * 2 ^ (52 + 1)) = (2 ^ 53 - 1) + 1"
    by (rule round_even_up) simp_all
  show ?thesis
    unfolding fl_binade_small [OF lo hi] r by simp
qed

lemma exp_minus_64: "exp (- 64 :: real) \<le> 1 / 2 ^ 64"
proof -
  have "ln ((2::real) ^ 64) = real 64 * ln 2"
    by (rule ln_realpow)
  then have l: "ln ((2::real) ^ 64) = 64 * ln 2"
    by (simp only: of_nat_numeral)
  have "64 * ln 2 \<le> (64::real)"
    using ln_2_less_1 by simp
  then have "exp (ln ((2::real) ^ 64)) \<le> exp 64"
    by (simp only: l exp_le_cancel_iff)
  then have a: "(2::real) ^ 64 \<le> exp 64"
    by simp
  have "exp (- 64 :: real) = 1 / exp 64"
    by (simp add: exp_minus inverse_eq_divide)
  also have "\<dots> \<le> 1 / 2 ^ 64"
    using a by (intro divide_left_mono) simp_all
  finally show ?thesis .
qed

lemma normalCDF_double_saturates:
  assumes "16 \<le> x0"
  shows "normalCDF_double x0 = 1"
proof -
  define x where "x = fl (\<bar>x0\<bar> / fl (sqrt 2))"
  define t where "t = fl (1 / fl (1 + fl (fl 0.3275911 * x)))"
  define E where "E = fl (exp (fl (- x * x)))"
  define g where "g = fl (horner_double t * t)"
  have "sqrt (2::real) \<le> sqrt (2\<^sup>2)" by (rule real_sqrt_le_mono) simp
  then have "sqrt 2 \<le> 2" by simp
  then have r2: "fl (sqrt 2) \<le> 2" by (intro fl_le) simp_all
  have "1 \<le> sqrt 2" by simp
  then have r1: "1 \<le> fl (sqrt 2)" by (intro fl_ge) simp_all
  have "16 / 2 \<le> \<bar>x0\<bar> / fl (sqrt 2)"
    using assms r1 r2 by (intro frac_le) simp_all
  then have "8 \<le> \<bar>x0\<bar> / fl (sqrt 2)" by simp
  then have x8: "8 \<le> x" unfolding x_def by (intro fl_ge) simp_all
  then have x0: "0 \<le> x" by simp
  from t_range [OF x0] have t: "0 \<le> t" "t \<le> 1" by (simp_all add: t_def)
  from horner_double_range [OF t] have H: "0 \<le> horner_double t" "horner_double t \<le> 2"
    by simp_all
  have "0 \<le> horner_double t * t" using H t by simp
  moreover have "horner_double t * t \<le> 2 * 1" using H t by (intro mult_mono) simp_all
  ultimately have g: "0 \<le> g" "g \<le> 2"
    unfolding g_def by (auto intro: fl_nonneg fl_le)
  have "8 * 8 \<le> x * x" using x8 by (intro mult_mono) simp_all
  then have "- x * x \<le> - 64" by simp
  then have "fl (- x * x) \<le> - 64" by (intro fl_le) (simp_all add: fl_minus)
  then have "exp (fl (- x * x)) \<le> exp (- 64)" by simp
  with exp_minus_64 have e64: "exp (fl (- x * x)) \<le> 1 / 2 ^ 64" by linarith
  have E: "0 \<le> E" "E \<le> 1 / 2 ^ 64"
  proof -
    show "0 \<le> E" unfolding E_def by (intro fl_nonneg) simp
    show "E \<le> 1 / 2 ^ 64" unfolding E_def by (rule fl_le [OF e64 fl_inv_pow2])
  qed
  have ge0: "0 \<le> g * E" using g E by simp
  have "g * E \<le> 2 * (1 / 2 ^ 64)" using g E by (intro mult_mono) simp_all
  then have ge1: "g * E \<le> 1 / 2 ^ 63" by simp
  have q: "0 \<le> fl (g * E)" "fl (g * E) \<le> 1 / 2 ^ 63"
  proof -
    show "0 \<le> fl (g * E)" using ge0 by (rule fl_nonneg)
    show "fl (g * E) \<le> 1 / 2 ^ 63" by (rule fl_le [OF ge1 fl_inv_pow2])
  qed
  have tl: "tail_double x = fl (g * E)"
    unfolding tail_double_def Let_def g_def E_def t_def by (rule refl)
  have "fl (1 - 1 / 2 ^ 63) \<le> fl (1 - fl (g * E))" using q by (intro fl_mono) simp
  moreover have "fl (1 - fl (g * E)) \<le> 1" using q by (intro fl_le) simp_all
  ultimately have erf: "fl (1 - tail_double x) = 1"
    unfolding tl fl_below_one by simp
  from assms have "\<not> x0 < 0" by simp
  then show ?thesis
    unfolding normalCDF_double_split x_def [symmetric] erf by simp
qed

lemma ln_2_ge_half: "1 / 2 \<le> ln (2::real)"
proof -
  have "exp (1 / 2 :: real) \<le> 1 + 1 / 2 + (1 / 2)\<^sup>2"
    by (rule exp_bound) simp_all
  also have "\<dots> \<le> 2" by (simp add: power2_eq_square)
  finally have "ln (exp (1 / 2 :: real)) \<le> ln 2"
    by (subst ln_le_cancel_iff) simp_all
  then show ?thesis by simp
qed

lemma fl_val: "x = 1 / 2 ^ n \<Longrightarrow> fl x = 1 / 2 ^ n"
  by (simp add: fl_inv_pow2)

lemma d1_double_deep: "16 \<le> d1_double 200 100 (1 / 256) (1 / 2) 0"
proof -
  have L: "1 / 2 \<le> fl (ln 2)"
    using ln_2_ge_half fl_inv_pow2 [of 1] by (intro fl_ge) simp_all
  have 1: "fl (0.5 * (1 / 2)) = 1 / 2 ^ 2" by (rule fl_val) simp
  have 2: "fl (1 / 2 ^ 2 * (1 / 2)) = 1 / 2 ^ 3" by (rule fl_val) simp
  have 3: "fl (0 + 1 / 2 ^ 3) = 1 / 2 ^ 3" by (rule fl_val) simp
  have 4: "fl (1 / 2 ^ 3 * (1 / 256)) = 1 / 2 ^ 11" by (rule fl_val) simp
  have 5: "fl (sqrt (1 / 256)) = 1 / 2 ^ 4" by (rule fl_val) (simp add: sqrt_256)
  have 6: "fl (1 / 2 * (1 / 2 ^ 4)) = 1 / 2 ^ 5" by (rule fl_val) simp
  have 7: "fl (200 / 100) = 2" by simp
  have "1 / 2 \<le> fl (ln 2) + 1 / 2 ^ 11" using L by simp
  then have n: "1 / 2 \<le> fl (fl (ln 2) + 1 / 2 ^ 11)"
    using fl_inv_pow2 [of 1] by (intro fl_ge) simp_all
  have "16 \<le> fl (fl (ln 2) + 1 / 2 ^ 11) / (1 / 2 ^ 5)" using n by simp
  then have "16 \<le> fl (fl (fl (ln 2) + 1 / 2 ^ 11) / (1 / 2 ^ 5))"
    by (intro fl_ge) simp_all
  then show ?thesis
    unfolding d1_double_def 1 2 3 4 5 6 7 .
qed

lemma greeks_double_saturated:
  "delta (calculateGreeks_double 200 100 (1 / 256) (1 / 2) 0 True) = 1
   \<and> delta (calculateGreeks_double 200 100 (1 / 256) (1 / 2) 0 False) = 0"
proof -
  have n: "normalCDF_double (d1_double 200 100 (1 / 256) (1 / 2) 0) = 1"
    by (rule normalCDF_double_saturates [OF d1_double_deep])
  have v: "(0::real) < 200" "(0::real) < 100" "(0::real) < 1 / 256" "(0::real) < 1 / 2"
    by simp_all
  show ?thesis
    unfolding greeks_double_valid [OF v] n by simp
qed

text \<open>
  C8. For a valid contract, in exact arithmetic delta lies strictly between 0 and 1 for
  a call and strictly between \<open>- 1\<close> and 0 for a put. Evaluated in binary64 it lies in the
  closed intervals \<open>[0, 1]\<close> and \<open>[- 1, 0]\<close>. Gamma and vega are at least 0 in both
  readings.
\<close>

theorem greeks_ranges:
  assumes "0 < S" and "0 < K" and "0 < T" and "0 < v"
  shows "0 < delta (calculateGreeks S K T v r True)
       \<and> delta (calculateGreeks S K T v r True) < 1
       \<and> - 1 < delta (calculateGreeks S K T v r False)
       \<and> delta (calculateGreeks S K T v r False) < 0
       \<and> 0 \<le> gamma (calculateGreeks S K T v r isCall)
       \<and> 0 \<le> vega (calculateGreeks S K T v r isCall)
       \<and> 0 \<le> delta (calculateGreeks_double S K T v r True)
       \<and> delta (calculateGreeks_double S K T v r True) \<le> 1
       \<and> - 1 \<le> delta (calculateGreeks_double S K T v r False)
       \<and> delta (calculateGreeks_double S K T v r False) \<le> 0
       \<and> 0 \<le> gamma (calculateGreeks_double S K T v r isCall)
       \<and> 0 \<le> vega (calculateGreeks_double S K T v r isCall)"
  using greeks_ranges_exact [OF assms, of r isCall] greeks_double_ranges [OF assms]
  by blast

theorem greeks_ranges_witness:
  "(0::real) < 100 \<and> (0::real) < 1 \<and> (0::real) < 0.2
   \<and> 0 < delta (calculateGreeks 100 100 1 0.2 0.05 True)
   \<and> delta (calculateGreeks 100 100 1 0.2 0.05 True) < 1
   \<and> 0 \<le> delta (calculateGreeks_double 100 100 1 0.2 0.05 True)
   \<and> delta (calculateGreeks_double 100 100 1 0.2 0.05 True) \<le> 1
   \<and> - 1 \<le> delta (calculateGreeks_double 100 100 1 0.2 0.05 False)
   \<and> delta (calculateGreeks_double 100 100 1 0.2 0.05 False) \<le> 0
   \<and> 0 \<le> gamma (calculateGreeks_double 100 100 1 0.2 0.05 True)
   \<and> 0 \<le> vega (calculateGreeks_double 100 100 1 0.2 0.05 True)"
proof -
  have v: "(0::real) < 100" "(0::real) < 1" "(0::real) < 0.2"
    by simp_all
  from greeks_ranges [OF v(1) v(1) v(2) v(3), of "0.05" True] v show ?thesis
    by blast
qed

text \<open>
  C8 with strict bounds, in binary64: for \<open>S = 200\<close>, \<open>K = 100\<close>, \<open>T = 1/256\<close>,
  \<open>\<sigma> = 1/2\<close>, \<open>r = 0\<close> the parameter \<open>d1\<close> is at least 16, the term subtracted from 1 in
  \<open>normalCDF_double\<close> is below \<open>2\<^sup>-\<^sup>6\<^sup>3\<close>, the difference rounds to 1, and delta is exactly 1
  for the call and exactly 0 for the put.
\<close>

theorem greeks_delta_counterexample:
  "delta (calculateGreeks_double 200 100 (1 / 256) (1 / 2) 0 True) = 1
   \<and> \<not> delta (calculateGreeks_double 200 100 (1 / 256) (1 / 2) 0 True) < 1
   \<and> delta (calculateGreeks_double 200 100 (1 / 256) (1 / 2) 0 False) = 0
   \<and> \<not> delta (calculateGreeks_double 200 100 (1 / 256) (1 / 2) 0 False) < 0"
  using greeks_double_saturated by simp

section \<open>Time to expiry\<close>

text \<open>
  C9. \<open>dateToTimeToExpiry\<close> divides the elapsed milliseconds by the milliseconds of a day
  and by 365; \<open>durationToTimeToExpiry\<close> divides the elapsed seconds by the seconds of a
  day and by 365. For the same elapsed time the two year fractions are equal; in
  particular \<open>durationToTimeToExpiry 24 0 0\<close> is \<open>dateToTimeToExpiry\<close> of the instant 24
  hours after the clock reading.
\<close>

theorem time_paths_agree:
  "(real_of_int (expiryDate - now) = 1000 * (hours * 3600 + minutes * 60 + seconds) \<longrightarrow>
      dateToTimeToExpiry now expiryDate = durationToTimeToExpiry hours minutes seconds)
   \<and> dateToTimeToExpiry now expiryDate = real_of_int (expiryDate - now) / 86400000 / 365
   \<and> durationToTimeToExpiry hours minutes seconds
       = (hours * 3600 + minutes * 60 + seconds) / 86400 / 365
   \<and> durationToTimeToExpiry 24 0 0 = dateToTimeToExpiry now (now + 24 * 60 * 60 * 1000)"
  by (simp add: dateToTimeToExpiry_def durationToTimeToExpiry_def Let_def)

theorem time_paths_agree_witness:
  "real_of_int (1700005400000 - 1700000000000) = 1000 * (1 * 3600 + 30 * 60 + 0)
   \<and> dateToTimeToExpiry 1700000000000 1700005400000 = durationToTimeToExpiry 1 30 0"
  using time_paths_agree [of 1700005400000 1700000000000 1 30 0] by simp

section \<open>Payoff curve\<close>

text \<open>
  The loop returns exactly when some sampled price exceeds \<open>maxPrice\<close>: with \<open>n\<close> the
  first such index it returns the \<open>n\<close> points of the sampled prices before it, in order,
  and when there is no such index it never returns.
\<close>

lemma generateData_loop:
  "generateData S K prem ot =
     generateLoop ot K prem (maxPrice_of S K) (step_of S K) (minPrice_of S K) []"
  by (simp add: generateData_def Let_def minPrice_of_def maxPrice_of_def step_of_def)

lemma generateLoop_run:
  "\<forall>i<n. ((\<lambda>q. fl (q + step)) ^^ i) p \<le> maxPrice \<Longrightarrow>
   \<not> ((\<lambda>q. fl (q + step)) ^^ n) p \<le> maxPrice \<Longrightarrow>
   generateLoop ot K prem maxPrice step p data =
     Some (data @ map (\<lambda>i. data_point ot K prem (((\<lambda>q. fl (q + step)) ^^ i) p)) [0..<n])"
proof (induction n arbitrary: p data)
  case 0
  then show ?case
    by (subst generateLoop.simps) simp
next
  case (Suc n)
  let ?next = "\<lambda>q. fl (q + step)"
  from Suc.prems(1) have le: "p \<le> maxPrice" by force
  have shift: "(?next ^^ i) (fl (p + step)) = (?next ^^ Suc i) p" for i
    using funpow_swap1 [of ?next i p] by simp
  have a: "\<forall>i<n. (?next ^^ i) (fl (p + step)) \<le> maxPrice"
    using Suc.prems(1) unfolding shift by auto
  have b: "\<not> (?next ^^ n) (fl (p + step)) \<le> maxPrice"
    using Suc.prems(2) unfolding shift .
  have "map (\<lambda>i. data_point ot K prem ((?next ^^ i) p)) [0..<Suc n]
        = data_point ot K prem p
          # map (\<lambda>i. data_point ot K prem ((?next ^^ i) (fl (p + step)))) [0..<n]"
    unfolding shift by (subst map_upt_Suc) simp
  with Suc.IH [OF a b, of "data @ [data_point ot K prem p]"] le show ?case
    by (subst generateLoop.simps) simp
qed

lemma generateLoop_exit:
  assumes "generateLoop ot K prem maxPrice step p data = Some res"
  shows "\<exists>n. \<not> ((\<lambda>q. fl (q + step)) ^^ n) p \<le> maxPrice"
proof (rule generateLoop.raw_induct
         [where P = "\<lambda>ot K prem maxPrice step p data res.
                       \<exists>n. \<not> ((\<lambda>q. fl (q + step)) ^^ n) p \<le> maxPrice",
          OF _ assms])
  fix loop ot K prem maxPrice step p data res
  assume IH: "\<And>ot K prem maxPrice step p data res.
                loop ot K prem maxPrice step p data = Some res \<Longrightarrow>
                \<exists>n. \<not> ((\<lambda>q. fl (q + step)) ^^ n) p \<le> maxPrice"
    and eq: "(if p \<le> maxPrice
              then loop ot K prem maxPrice step (fl (p + step)) (data @ [data_point ot K prem p])
              else Some data) = Some res"
  show "\<exists>n. \<not> ((\<lambda>q. fl (q + step)) ^^ n) p \<le> maxPrice"
  proof (cases "p \<le> maxPrice")
    case True
    with eq have "loop ot K prem maxPrice step (fl (p + step)) (data @ [data_point ot K prem p])
                    = Some res"
      by simp
    from IH [OF this] obtain n where "\<not> ((\<lambda>q. fl (q + step)) ^^ n) (fl (p + step)) \<le> maxPrice" ..
    then have "\<not> ((\<lambda>q. fl (q + step)) ^^ Suc n) p \<le> maxPrice"
      using funpow_swap1 [of "\<lambda>q. fl (q + step)" n p] by simp
    then show ?thesis ..
  next
    case False
    then have "\<not> ((\<lambda>q. fl (q + step)) ^^ 0) p \<le> maxPrice" by simp
    then show ?thesis ..
  qed
qed

lemma generateData_run:
  assumes "\<forall>i<n. samplePrice S K i \<le> maxPrice_of S K"
    and "\<not> samplePrice S K n \<le> maxPrice_of S K"
  shows "generateData S K prem ot =
           Some (map (\<lambda>i. data_point ot K prem (samplePrice S K i)) [0..<n])"
  using generateLoop_run [OF assms [unfolded samplePrice_def], of ot K prem "[]"]
  by (simp add: generateData_loop samplePrice_def)

lemma generateData_never_returns:
  assumes "\<forall>n. samplePrice S K n \<le> maxPrice_of S K"
  shows "generateData S K prem ot = None"
proof (cases "generateData S K prem ot")
  case (Some res)
  from generateLoop_exit [OF Some [unfolded generateData_loop]] assms show ?thesis
    by (simp add: samplePrice_def)
qed simp


lemma toFixed2_minus: "toFixed2 (- x) = - toFixed2 x"
  by (simp add: toFixed2_def)

lemma rounded_pair:
  "fl (prem - m) = - fl (m - prem)
   \<and> fl (toFixed2 (fl (prem - m))) = - fl (toFixed2 (fl (m - prem)))"
proof -
  have "fl (prem - m) = fl (- (m - prem))" by simp
  then have a: "fl (prem - m) = - fl (m - prem)" by (simp only: fl_minus)
  then show ?thesis by (simp add: toFixed2_minus fl_minus)
qed

lemma payoff_near_exact:
  "\<bar>fl (max 0 (fl d) - prem) - (max 0 d - prem)\<bar> \<le> (\<bar>d\<bar> + \<bar>max 0 d - prem\<bar>) / 2 ^ 52"
proof -
  define m where "m = max 0 (fl d)"
  define m0 where "m0 = max 0 d"
  have e1: "\<bar>fl d - d\<bar> \<le> \<bar>d\<bar> / 2 ^ 53" by (rule fl_err)
  then have e2: "\<bar>m - m0\<bar> \<le> \<bar>d\<bar> / 2 ^ 53"
    unfolding m_def m0_def by (auto simp: max_def abs_if split: if_splits)
  have e3: "\<bar>fl (m - prem) - (m - prem)\<bar> \<le> \<bar>m - prem\<bar> / 2 ^ 53" by (rule fl_err)
  have "\<bar>m - prem\<bar> \<le> \<bar>m0 - prem\<bar> + \<bar>d\<bar> / 2 ^ 53" using e2 by linarith
  also have "\<dots> \<le> \<bar>m0 - prem\<bar> + \<bar>d\<bar>" by simp
  finally have "\<bar>m - prem\<bar> / 2 ^ 53 \<le> (\<bar>m0 - prem\<bar> + \<bar>d\<bar>) / 2 ^ 53"
    by (simp add: divide_right_mono)
  with e3 have "\<bar>fl (m - prem) - (m - prem)\<bar> \<le> (\<bar>m0 - prem\<bar> + \<bar>d\<bar>) / 2 ^ 53" by linarith
  with e2 have "\<bar>fl (m - prem) - (m0 - prem)\<bar>
                 \<le> (\<bar>m0 - prem\<bar> + \<bar>d\<bar>) / 2 ^ 53 + \<bar>d\<bar> / 2 ^ 53" by linarith
  also have "\<dots> \<le> (\<bar>d\<bar> + \<bar>m0 - prem\<bar>) / 2 ^ 52" by (simp add: field_simps)
  finally show ?thesis unfolding m_def m0_def .
qed

lemma data_point_fields:
  "price (data_point ot K prem p) = fl (toFixed2 p)
   \<and> buyerPayoff (data_point ot K prem p)
       = fl (toFixed2 (fl ((case ot of Call \<Rightarrow> max 0 (fl (p - K)) | Put \<Rightarrow> max 0 (fl (K - p)))
                           - prem)))
   \<and> sellerPayoff (data_point ot K prem p)
       = fl (toFixed2 (fl (prem
                           - (case ot of Call \<Rightarrow> max 0 (fl (p - K)) | Put \<Rightarrow> max 0 (fl (K - p))))))"
  by (cases ot) (simp_all add: data_point_def payoffs_def)

lemma samplePrice_0: "samplePrice S K 0 = minPrice_of S K"
  by (simp add: samplePrice_def)

lemma samplePrice_Suc: "samplePrice S K (Suc i) = fl (samplePrice S K i + step_of S K)"
  by (simp add: samplePrice_def)

lemma grid_100:
  "minPrice_of 100 100 = 25" "maxPrice_of 100 100 = 175" "step_of 100 100 = 3 / 2"
  by (simp_all add: minPrice_of_def maxPrice_of_def step_of_def)

lemma sample_100:
  "i \<le> 101 \<Longrightarrow> samplePrice 100 100 i = 25 + 3 / 2 * real i"
proof (induction i)
  case 0
  show ?case by (simp add: samplePrice_0 grid_100)
next
  case (Suc i)
  then have i: "i \<le> 101" by simp
  define k where "k = 53 + 3 * int i"
  have kk: "of_int k / 2 ^ 1 = 25 + 3 / 2 * real i + 3 / 2"
    by (simp add: k_def field_simps)
  have "\<bar>k\<bar> < 2 ^ 53" using i by (simp add: k_def)
  then have "fl (of_int k / 2 ^ 1) = of_int k / 2 ^ 1"
    by (rule fl_div_pow2)
  then have "fl (25 + 3 / 2 * real i + 3 / 2) = 25 + 3 / 2 * real i + 3 / 2"
    unfolding kk .
  also have "\<dots> = 25 + 3 / 2 * real (Suc i)"
    by (simp add: field_simps)
  finally show ?case
    by (simp only: samplePrice_Suc Suc.IH [OF i] grid_100)
qed

text \<open>
  C5. When the loop ends after \<open>n\<close> sampled prices, the curve has \<open>n\<close> points and point
  \<open>i\<close> belongs to sampled price \<open>p\<close> number \<open>i\<close>. Before \<^verbatim>\<open>toFixed\<close> the buyer's value
  computed by the loop body (\<open>payoffs\<close>) is \<open>max 0 (p - K) - premium\<close> for a call and
  \<open>max 0 (K - p) - premium\<close> for a put,
  evaluated in binary64 (two roundings, so within \<open>2\<^sup>-\<^sup>5\<^sup>2\<close> of the magnitudes involved of
  the exact value), and the seller's value is exactly its negation, so the two add up to
  0. The point holds the sampled price and the two values, each rounded to two decimal
  places, and the rounded values add up to at most one cent in magnitude.
\<close>

theorem payoff_curve_zero_sum:
  assumes "\<forall>i<n. samplePrice S K i \<le> maxPrice_of S K"
    and "\<not> samplePrice S K n \<le> maxPrice_of S K"
  shows "\<exists>pts. generateData S K prem ot = Some pts \<and> length pts = n \<and>
           (\<forall>i<n.
              let p = samplePrice S K i;
                  d = (case ot of Call \<Rightarrow> p - K | Put \<Rightarrow> K - p);
                  buyer = fl (max 0 (fl d) - prem);
                  seller = fl (prem - max 0 (fl d))
              in payoffs ot K prem p = (buyer, seller)
                 \<and> \<bar>buyer - (max 0 d - prem)\<bar> \<le> (\<bar>d\<bar> + \<bar>max 0 d - prem\<bar>) / 2 ^ 52
                 \<and> seller = - buyer \<and> buyer + seller = 0
                 \<and> price (pts ! i) = fl (toFixed2 p)
                 \<and> buyerPayoff (pts ! i) = fl (toFixed2 buyer)
                 \<and> sellerPayoff (pts ! i) = fl (toFixed2 seller)
                 \<and> \<bar>buyerPayoff (pts ! i) + sellerPayoff (pts ! i)\<bar> \<le> 1 / 100)"
proof -
  let ?pts = "map (\<lambda>i. data_point ot K prem (samplePrice S K i)) [0..<n]"
  have g: "generateData S K prem ot = Some ?pts"
    by (rule generateData_run [OF assms])
  have len: "length ?pts = n"
    by simp
  have "payoffs ot K prem p = (fl (max 0 (fl d) - prem), fl (prem - max 0 (fl d)))
        \<and> \<bar>fl (max 0 (fl d) - prem) - (max 0 d - prem)\<bar> \<le> (\<bar>d\<bar> + \<bar>max 0 d - prem\<bar>) / 2 ^ 52
        \<and> fl (prem - max 0 (fl d)) = - fl (max 0 (fl d) - prem)
        \<and> fl (max 0 (fl d) - prem) + fl (prem - max 0 (fl d)) = 0
        \<and> price (?pts ! i) = fl (toFixed2 p)
        \<and> buyerPayoff (?pts ! i) = fl (toFixed2 (fl (max 0 (fl d) - prem)))
        \<and> sellerPayoff (?pts ! i) = fl (toFixed2 (fl (prem - max 0 (fl d))))
        \<and> \<bar>buyerPayoff (?pts ! i) + sellerPayoff (?pts ! i)\<bar> \<le> 1 / 100"
    if i: "i < n" and p: "p = samplePrice S K i"
      and d: "d = (case ot of Call \<Rightarrow> p - K | Put \<Rightarrow> K - p)" for i p d
  proof -
    have pt: "?pts ! i = data_point ot K prem p"
      using i p by simp
    have m: "(case ot of Call \<Rightarrow> max 0 (fl (p - K)) | Put \<Rightarrow> max 0 (fl (K - p))) = max 0 (fl d)"
      unfolding d by (cases ot) simp_all
    note f = data_point_fields [of ot K prem p, unfolded m]
    note r = rounded_pair [of prem "max 0 (fl d)"]
    have 0: "payoffs ot K prem p = (fl (max 0 (fl d) - prem), fl (prem - max 0 (fl d)))"
      unfolding d by (cases ot) (simp_all add: payoffs_def)
    have 1: "\<bar>fl (max 0 (fl d) - prem) - (max 0 d - prem)\<bar>
             \<le> (\<bar>d\<bar> + \<bar>max 0 d - prem\<bar>) / 2 ^ 52"
      by (rule payoff_near_exact)
    have 2: "fl (prem - max 0 (fl d)) = - fl (max 0 (fl d) - prem)"
      using r by (rule conjunct1)
    have 3: "fl (max 0 (fl d) - prem) + fl (prem - max 0 (fl d)) = 0"
      unfolding 2 by simp
    have 4: "price (?pts ! i) = fl (toFixed2 p)"
      unfolding pt using f by (rule conjunct1)
    have 5: "buyerPayoff (?pts ! i) = fl (toFixed2 (fl (max 0 (fl d) - prem)))"
      unfolding pt using f by blast
    have 6: "sellerPayoff (?pts ! i) = fl (toFixed2 (fl (prem - max 0 (fl d))))"
      unfolding pt using f by blast
    have "buyerPayoff (?pts ! i) + sellerPayoff (?pts ! i) = 0"
      unfolding 5 6 using r by linarith
    then have 7: "\<bar>buyerPayoff (?pts ! i) + sellerPayoff (?pts ! i)\<bar> \<le> 1 / 100"
      by simp
    from 0 1 2 3 4 5 6 7 show ?thesis by blast
  qed
  then have "\<forall>i<n.
              let p = samplePrice S K i;
                  d = (case ot of Call \<Rightarrow> p - K | Put \<Rightarrow> K - p);
                  buyer = fl (max 0 (fl d) - prem);
                  seller = fl (prem - max 0 (fl d))
              in payoffs ot K prem p = (buyer, seller)
                 \<and> \<bar>buyer - (max 0 d - prem)\<bar> \<le> (\<bar>d\<bar> + \<bar>max 0 d - prem\<bar>) / 2 ^ 52
                 \<and> seller = - buyer \<and> buyer + seller = 0
                 \<and> price (?pts ! i) = fl (toFixed2 p)
                 \<and> buyerPayoff (?pts ! i) = fl (toFixed2 buyer)
                 \<and> sellerPayoff (?pts ! i) = fl (toFixed2 seller)
                 \<and> \<bar>buyerPayoff (?pts ! i) + sellerPayoff (?pts ! i)\<bar> \<le> 1 / 100"
    unfolding Let_def by blast
  with g len show ?thesis by blast
qed


theorem payoff_curve_zero_sum_witness:
  "generateData 100 100 10 Call \<noteq> None
   \<and> length (the (generateData 100 100 10 Call)) = 101
   \<and> samplePrice 100 100 100 = 175
   \<and> price (the (generateData 100 100 10 Call) ! 100) = 175
   \<and> buyerPayoff (the (generateData 100 100 10 Call) ! 100) = 65
   \<and> sellerPayoff (the (generateData 100 100 10 Call) ! 100) = - 65"
proof -
  have a: "\<forall>i<101. samplePrice 100 100 i \<le> maxPrice_of 100 100"
    by (simp add: sample_100 grid_100)
  have b: "\<not> samplePrice 100 100 101 \<le> maxPrice_of 100 100"
    by (simp add: sample_100 grid_100)
  have s: "samplePrice 100 100 100 = 175"
    by (simp add: sample_100)
  have t: "toFixed2 175 = 175" "toFixed2 65 = 65" "toFixed2 (- 65) = - 65"
    by (simp_all add: toFixed2_def)
  from payoff_curve_zero_sum [OF a b, of 10 Call]
  obtain pts where g: "generateData 100 100 10 Call = Some pts"
    and n: "length pts = 101"
    and p: "price (pts ! 100) = fl (toFixed2 (samplePrice 100 100 100))"
           "buyerPayoff (pts ! 100)
            = fl (toFixed2 (fl (max 0 (fl (samplePrice 100 100 100 - 100)) - 10)))"
           "sellerPayoff (pts ! 100)
            = fl (toFixed2 (fl (10 - max 0 (fl (samplePrice 100 100 100 - 100)))))"
    unfolding Let_def by auto
  from p have "price (pts ! 100) = 175" "buyerPayoff (pts ! 100) = 65"
    "sellerPayoff (pts ! 100) = - 65"
    unfolding s by (simp_all add: t fl_minus)
  with g n s show ?thesis by simp
qed

text \<open>
  The sampled prices for \<open>S = 1\<close>, \<open>K = 10\<close>: \<open>minPrice = 9.25\<close>, \<open>maxPrice = 10.75\<close>, and
  \<open>step\<close> is the binary64 number nearest to \<open>0.015\<close>. Every sum \<open>price + step\<close> lies
  between 8 and 16, where binary64 numbers are \<open>2\<^sup>-\<^sup>4\<^sup>9\<close> apart, and rounds up, so each
  iteration adds \<open>1055531162665 / 2\<^sup>4\<^sup>6\<close>, a little more than \<open>step\<close>.
\<close>

lemma step_val: "fl (3 / 200) = 1080863910568919 / 2 ^ 56"
proof -
  have "fl (3 / 200) = of_int (round_even (3 / 200 * 2 ^ (52 + 7))) / 2 ^ (52 + 7)"
    by (rule fl_binade_small) simp_all
  also have "round_even (3 / 200 * 2 ^ (52 + 7)) = 8646911284551352"
    by (rule round_even_down) simp_all
  finally show ?thesis by simp
qed

lemma grid_1_10:
  "minPrice_of 1 10 = 37 / 4" "maxPrice_of 1 10 = 43 / 4"
  "step_of 1 10 = 1080863910568919 / 2 ^ 56"
  by (simp_all add: minPrice_of_def maxPrice_of_def step_of_def step_val)

lemma accumulate_1_10:
  assumes "i \<le> 100"
  shows "fl (37 / 4 + real i * (1055531162665 / 2 ^ 46) + 1080863910568919 / 2 ^ 56)
         = 37 / 4 + real (Suc i) * (1055531162665 / 2 ^ 46)"
proof -
  define x :: real where
    "x = 37 / 4 + real i * (1055531162665 / 2 ^ 46) + 1080863910568919 / 2 ^ 56"
  define z :: int where "z = 37 * 2 ^ 47 + int i * 8444249301320 + 8444249301319"
  have i: "0 \<le> real i" "real i \<le> 100" using assms by simp_all
  have lo: "2 ^ 3 \<le> \<bar>x\<bar>" using i unfolding x_def by simp
  have hi: "\<bar>x\<bar> < 2 * 2 ^ 3" using i unfolding x_def by simp
  have f: "fl x = of_int (round_even (x * 2 ^ (52 - 3))) / 2 ^ (52 - 3)"
    by (rule fl_binade_mid [OF lo hi]) simp
  have y: "x * 2 ^ (52 - 3) = of_int z + 87 / 128"
    unfolding x_def z_def by (simp add: field_simps)
  have "round_even (x * 2 ^ (52 - 3)) = z + 1"
    unfolding y by (rule round_even_up) simp_all
  then have "fl x = of_int (z + 1) / 2 ^ 49"
    unfolding f by simp
  also have "\<dots> = 37 / 4 + real (Suc i) * (1055531162665 / 2 ^ 46)"
    unfolding z_def by (simp add: field_simps)
  finally show ?thesis unfolding x_def .
qed

lemma sample_1_10:
  "i \<le> 101 \<Longrightarrow> samplePrice 1 10 i = 37 / 4 + real i * (1055531162665 / 2 ^ 46)"
proof (induction i)
  case 0
  show ?case by (simp add: samplePrice_0 grid_1_10)
next
  case (Suc i)
  then have i: "i \<le> 100" by simp
  then have i': "i \<le> 101" by simp
  show ?case
    by (simp only: samplePrice_Suc Suc.IH [OF i'] grid_1_10 accumulate_1_10 [OF i])
qed

text \<open>
  C6. The range is \<open>[max 0 (K - 0.75 S), K + 0.75 S]\<close> and \<open>step\<close> is a hundredth of its
  length, but the number of points is not always 101: for \<open>S = 1\<close>, \<open>K = 10\<close> the
  sampled price number 100 is \<open>10.75 + 2\<^sup>-\<^sup>4\<^sup>4\<close>, above \<open>maxPrice = 10.75\<close>, so the loop ends
  after 100 points and the upper end of the range is not sampled.
\<close>

theorem generateData_drops_endpoint:
  "generateData 1 10 (1 / 2) Call =
     Some (map (\<lambda>i. data_point Call 10 (1 / 2) (37 / 4 + real i * (1055531162665 / 2 ^ 46)))
             [0..<100])
   \<and> length (map (\<lambda>i. data_point Call 10 (1 / 2) (37 / 4 + real i * (1055531162665 / 2 ^ 46)))
               [0..<100]) = 100
   \<and> maxPrice_of 1 10 = 43 / 4
   \<and> samplePrice 1 10 99 = 37 / 4 + 99 * (1055531162665 / 2 ^ 46)
   \<and> samplePrice 1 10 99 < 43 / 4
   \<and> samplePrice 1 10 100 = 43 / 4 + 1 / 2 ^ 44"
proof -
  have a: "\<forall>i<100. samplePrice 1 10 i \<le> maxPrice_of 1 10"
  proof (intro allI impI)
    fix i :: nat
    assume "i < 100"
    then have "real i \<le> 99" "i \<le> 101" by simp_all
    then show "samplePrice 1 10 i \<le> maxPrice_of 1 10"
      by (simp add: sample_1_10 grid_1_10)
  qed
  have b: "\<not> samplePrice 1 10 100 \<le> maxPrice_of 1 10"
    by (simp add: sample_1_10 grid_1_10)
  have "generateData 1 10 (1 / 2) Call =
          Some (map (\<lambda>i. data_point Call 10 (1 / 2) (samplePrice 1 10 i)) [0..<100])"
    by (rule generateData_run [OF a b])
  also have "map (\<lambda>i. data_point Call 10 (1 / 2) (samplePrice 1 10 i)) [0..<100]
             = map (\<lambda>i. data_point Call 10 (1 / 2) (37 / 4 + real i * (1055531162665 / 2 ^ 46)))
                 [0..<100]"
    by (rule map_cong) (simp_all add: sample_1_10)
  finally have g: "generateData 1 10 (1 / 2) Call =
     Some (map (\<lambda>i. data_point Call 10 (1 / 2) (37 / 4 + real i * (1055531162665 / 2 ^ 46)))
             [0..<100])" .
  have s: "samplePrice 1 10 99 = 37 / 4 + 99 * (1055531162665 / 2 ^ 46)"
          "samplePrice 1 10 100 = 43 / 4 + 1 / 2 ^ 44"
    by (simp_all add: sample_1_10)
  have "samplePrice 1 10 99 < 43 / 4"
    unfolding s by simp
  with g s show ?thesis
    by (simp add: grid_1_10 del: upt_Suc)
qed

text \<open>
  When \<open>step\<close> rounds to 0 the loop never ends: for \<open>S = 0\<close> (the spot field cleared),
  and for \<open>S = 1\<close> with a strike as large as \<open>2\<^sup>6\<^sup>0\<close>, where \<open>K - 0.75\<close> and \<open>K + 0.75\<close> both
  round to \<open>K\<close>.
\<close>

lemma fl_binade_big:
  assumes "2 ^ k \<le> \<bar>x\<bar>" and "\<bar>x\<bar> < 2 * 2 ^ k" and "52 \<le> k"
  shows "fl x = of_int (round_even (x / 2 ^ (k - 52))) * 2 ^ (k - 52)"
proof -
  have p: "(2::real) powr of_int (int k) = 2 ^ k"
    by (simp add: powr_realpow)
  have "(2::real) ^ (k - 52 + 52) = 2 ^ (k - 52) * 2 ^ 52"
    by (rule power_add)
  then have "(2::real) ^ k = 2 ^ (k - 52) * 2 ^ 52"
    using assms(3) by simp
  then have u: "(2::real) powr (of_int (int k) - 52) = 2 ^ (k - 52)"
    unfolding ulp_eq p by simp
  have a: "2 powr of_int (int k) \<le> \<bar>x\<bar>"
    unfolding p by (rule assms(1))
  have b: "\<bar>x\<bar> < 2 powr of_int (int k + 1)"
    unfolding ulp_eq p by (rule assms(2))
  show ?thesis
    unfolding fl_binade [OF a b] u by simp
qed

lemma stuck_never_returns:
  assumes "minPrice_of S K = maxPrice_of S K" and "step_of S K = 0"
    and "fl (maxPrice_of S K) = maxPrice_of S K"
  shows "generateData S K prem ot = None"
proof (rule generateData_never_returns, rule allI)
  fix n
  have "samplePrice S K n = maxPrice_of S K"
  proof (induction n)
    case 0
    show ?case by (simp add: samplePrice_0 assms(1))
  next
    case (Suc n)
    show ?case by (simp add: samplePrice_Suc Suc assms(2,3))
  qed
  then show "samplePrice S K n \<le> maxPrice_of S K" by simp
qed

lemma generateData_never_ends:
  "generateData 0 100 prem ot = None"
  "generateData 1 (2 ^ 60) prem ot = None"
proof -
  show "generateData 0 100 prem ot = None"
    by (rule stuck_never_returns)
       (simp_all add: minPrice_of_def maxPrice_of_def step_of_def)
  have lo: "fl (2 ^ 60 - 3 / 4) = 2 ^ 60"
  proof -
    have a: "2 ^ 59 \<le> \<bar>2 ^ 60 - 3 / 4 :: real\<bar>" by simp
    have b: "\<bar>2 ^ 60 - 3 / 4 :: real\<bar> < 2 * 2 ^ 59" by simp
    have r: "round_even ((2 ^ 60 - 3 / 4) / 2 ^ (59 - 52)) = (2 ^ 53 - 1) + 1"
      by (rule round_even_up) simp_all
    have c: "(52::nat) \<le> 59" by simp
    show ?thesis
      unfolding fl_binade_big [OF a b c] r by simp
  qed
  have hi: "fl (2 ^ 60 + 3 / 4) = 2 ^ 60"
  proof -
    have a: "2 ^ 60 \<le> \<bar>2 ^ 60 + 3 / 4 :: real\<bar>" by simp
    have b: "\<bar>2 ^ 60 + 3 / 4 :: real\<bar> < 2 * 2 ^ 60" by simp
    have r: "round_even ((2 ^ 60 + 3 / 4) / 2 ^ (60 - 52)) = 2 ^ 52"
      by (rule round_even_down) simp_all
    have c: "(52::nat) \<le> 60" by simp
    show ?thesis
      unfolding fl_binade_big [OF a b c] r by simp
  qed
  have q: "fl (1 * 0.75) = 3 / 4"
    by simp
  have e: "fl (2 ^ 60) = (2 ^ 60 :: real)"
    using fl_mult_pow2 [of 1 60] by simp
  have mn: "minPrice_of 1 (2 ^ 60) = 2 ^ 60"
    unfolding minPrice_of_def q lo by simp
  have mx: "maxPrice_of 1 (2 ^ 60) = 2 ^ 60"
    unfolding maxPrice_of_def q hi by simp
  have st: "step_of 1 (2 ^ 60) = 0"
    unfolding step_of_def mn mx by simp
  show "generateData 1 (2 ^ 60) prem ot = None"
    by (rule stuck_never_returns) (simp_all only: mn mx st e)
qed

section \<open>Volatility feed\<close>

text \<open>
  A response whose \<^verbatim>\<open>result\<close> is a non-empty array, with a number at index 1 of its
  last element, fulfils the pending promise with \<open>toFixed2\<close> of that number and starts
  closing the socket.
\<close>

lemma onmessage_resolves:
  assumes "map_of kvs ''result'' = Some (JArr xs)" and "xs \<noteq> []"
    and "get_index1 (last xs) = Inr (Val (JNum x))"
    and "promise c = Pending" and "readyState c = OPEN"
  shows "onmessage (Parsed (JObj kvs)) now c =
           c\<lparr>readyState := CLOSING,
             promise := Fulfilled \<lparr>volatility = toFixed2 x, timestamp = now\<rparr>\<rparr>"
  using assms
  by (simp add: onmessage_def message_body_def last_conv_nth resolve_def ws_close_def)

text \<open>
  C10. The first valid response with a non-empty result list settles the promise with
  the volatility of the last element and closes the connection. The value is rounded to
  the nearest hundredth by \<^verbatim>\<open>toFixed(2)\<close>, not truncated: for the last element
  \<open>45.6875\<close> the promise holds \<open>45.69\<close>, and truncation gives \<open>45.68\<close>.
\<close>

theorem fetchDVOLData_rounds_last_value:
  "onmessage
     (Parsed (JObj [(''jsonrpc'', JStr ''2.0''), (''id'', JNum 7617),
        (''result'', JArr [JArr [JNum 1700000000000, JNum 50],
                           JArr [JNum 1700003600000, JNum 45.6875]])]))
     1700003601000
     (onopen ''BTC'' new_client)
   = \<lparr>readyState = CLOSING,
      promise = Fulfilled \<lparr>volatility = 45.69, timestamp = 1700003601000\<rparr>,
      sent = [\<lparr>rpc_method = ''public/get_historical_volatility'', currency = ''BTC''\<rparr>]\<rparr>
   \<and> spec_truncate2 45.6875 = 45.68"
  by (simp add: onmessage_def message_body_def resolve_def ws_close_def onopen_def new_client_def
        toUpperCase_def toFixed2_def spec_truncate2_def)

end

